theory Spec2Isabelle
  imports Complex_Main "HOL-Library.AList"
begin

section \<open>Python values used by the converter\<close>

text \<open>
  The converter is a Python 3 script (\<^verbatim>\<open>converter_p3.py\<close>). Exceptions are values of
  type \<open>exn\<close>; a computation that may raise returns \<open>exn + 'a\<close>. Strings are lists of
  characters and are taken to be ASCII text; an attribute that is absent (Python's
  \<^verbatim>\<open>None\<close>) is \<open>None\<close> of an option type.
\<close>

datatype exn =
    AttributeError | TypeError | ValueError | OverflowError
  | XMLSyntaxError | OSError | ReError

text \<open>\<^verbatim>\<open>'{0}'.format(v)\<close> for a value that is a string or \<^verbatim>\<open>None\<close>.\<close>

definition py_format :: "string option \<Rightarrow> string" where
  "py_format v = (case v of None \<Rightarrow> ''None'' | Some s \<Rightarrow> s)"

text \<open>\<^verbatim>\<open>'{0}.{1}'.format(a, b)\<close>.\<close>

definition format_dotted :: "string option \<Rightarrow> string option \<Rightarrow> string" where
  "format_dotted a b = py_format a @ ''.'' @ py_format b"

text \<open>\<^verbatim>\<open>str.strip()\<close>: the ASCII characters for which \<^verbatim>\<open>str.isspace\<close> holds.\<close>

definition py_isspace :: "char \<Rightarrow> bool" where
  "py_isspace c = (let n = (of_char c :: nat) in (9 \<le> n \<and> n \<le> 13) \<or> (28 \<le> n \<and> n \<le> 32))"

definition py_strip :: "string \<Rightarrow> string" where
  "py_strip s = rev (dropWhile py_isspace (rev (dropWhile py_isspace s)))"

subsection \<open>Floating point: \<^verbatim>\<open>float(s)\<close>, \<^verbatim>\<open>x * 1000\<close>, \<^verbatim>\<open>int(x)\<close>, \<^verbatim>\<open>str(n)\<close>\<close>

text \<open>
  A Python float is an IEEE 754 binary64 number. A finite one is represented by the
  rational it denotes (the sign of zero plays no role below). \<open>round_double\<close> rounds a
  rational to the nearest binary64 number, ties to even, as the correctly rounded
  \<^verbatim>\<open>float(s)\<close> and the multiplication do.
\<close>

datatype pyfloat = Finite rat | PosInf | NegInf | NaN

text \<open>The number of binary digits of a positive integer.\<close>

function bitlen :: "int \<Rightarrow> nat" where
  "bitlen n = (if n \<le> 0 then 0 else Suc (bitlen (n div 2)))"
  by pat_completeness auto
termination
  by (relation "measure nat") auto

definition pow2 :: "int \<Rightarrow> rat" where
  "pow2 e = (if 0 \<le> e then 2 ^ nat e else 1 / 2 ^ nat (- e))"

definition round_half_even :: "rat \<Rightarrow> int" where
  "round_half_even q =
     (let f = \<lfloor>q\<rfloor>; r = q - of_int f
      in if r < 1 / 2 then f else if 1 / 2 < r then f + 1 else if even f then f else f + 1)"

text \<open>For \<open>0 < q\<close>: the \<open>e\<close> with \<open>2 ^ e \<le> q < 2 ^ (e + 1)\<close>.\<close>

definition binade :: "rat \<Rightarrow> int" where
  "binade q =
     (let d = int (bitlen (fst (quotient_of q))) - int (bitlen (snd (quotient_of q)))
      in if pow2 d \<le> q then d else d - 1)"

definition round_double_pos :: "rat \<Rightarrow> pyfloat" where
  "round_double_pos q =
     (let e = max (binade q) (- 1022);
          u = pow2 (e - 52);
          r = of_int (round_half_even (q / u)) * u
      in if pow2 1024 \<le> r then PosInf else Finite r)"

definition fneg :: "pyfloat \<Rightarrow> pyfloat" where
  "fneg x = (case x of Finite q \<Rightarrow> Finite (- q) | PosInf \<Rightarrow> NegInf | NegInf \<Rightarrow> PosInf | NaN \<Rightarrow> NaN)"

definition round_double :: "rat \<Rightarrow> pyfloat" where
  "round_double q =
     (if q = 0 then Finite 0
      else if 0 < q then round_double_pos q
      else fneg (round_double_pos (- q)))"

definition is_digit :: "char \<Rightarrow> bool" where
  "is_digit c = (let n = (of_char c :: nat) in 48 \<le> n \<and> n \<le> 57)"

definition digit_val :: "char \<Rightarrow> int" where
  "digit_val c = of_char c - 48"

text \<open>The grammar's \<^verbatim>\<open>digitpart ::= digit (["_"] digit)*\<close>.\<close>

fun digitpart_ok :: "string \<Rightarrow> bool" where
  "digitpart_ok [] = False"
| "digitpart_ok [c] = is_digit c"
| "digitpart_ok (c # d # cs) =
     (is_digit c \<and> (if d = CHR ''_'' then digitpart_ok cs else digitpart_ok (d # cs)))"

definition digits_val :: "string \<Rightarrow> int" where
  "digits_val ds = foldl (\<lambda>a c. 10 * a + digit_val c) 0 (filter is_digit ds)"

definition lower_char :: "char \<Rightarrow> char" where
  "lower_char c = (let n = (of_char c :: nat) in if 65 \<le> n \<and> n \<le> 90 then char_of (n + 32) else c)"

text \<open>Splits at the first character satisfying \<open>p\<close>; the second part is absent when there is none.\<close>

definition split_first :: "(char \<Rightarrow> bool) \<Rightarrow> string \<Rightarrow> string \<times> string option" where
  "split_first p s =
     (case dropWhile (\<lambda>c. \<not> p c) s of
        [] \<Rightarrow> (s, None)
      | _ # r \<Rightarrow> (takeWhile (\<lambda>c. \<not> p c) s, Some r))"

definition split_sign :: "string \<Rightarrow> bool \<times> string" where
  "split_sign s =
     (case s of
        [] \<Rightarrow> (False, [])
      | c # r \<Rightarrow> if c = CHR ''-'' then (True, r) else if c = CHR ''+'' then (False, r) else (False, s))"

text \<open>\<^verbatim>\<open>number ::= [digitpart] "." digitpart | digitpart ["."]\<close>, with its value
  as digits and a count of fractional digits.\<close>

definition parse_number :: "string \<Rightarrow> (int \<times> nat) option" where
  "parse_number s =
     (case split_first (\<lambda>c. c = CHR ''.'') s of
        (ip, None) \<Rightarrow> if digitpart_ok ip then Some (digits_val ip, 0) else None
      | (ip, Some fp) \<Rightarrow>
          if (ip = [] \<or> digitpart_ok ip) \<and> (fp = [] \<or> digitpart_ok fp) \<and> \<not> (ip = [] \<and> fp = [])
          then Some (digits_val (ip @ fp), length (filter is_digit fp))
          else None)"

definition parse_exponent :: "string option \<Rightarrow> int option" where
  "parse_exponent x =
     (case x of
        None \<Rightarrow> Some 0
      | Some s \<Rightarrow>
          (case split_sign s of
             (neg, ds) \<Rightarrow>
               if digitpart_ok ds
               then Some (if neg then - digits_val ds else digits_val ds)
               else None))"

definition pow10 :: "int \<Rightarrow> rat" where
  "pow10 e = (if 0 \<le> e then 10 ^ nat e else 1 / 10 ^ nat (- e))"

text \<open>\<^verbatim>\<open>float(v)\<close> for an attribute value: \<^verbatim>\<open>None\<close> raises TypeError, a string that is
  not a float literal raises ValueError.\<close>

definition py_float :: "string option \<Rightarrow> exn + pyfloat" where
  "py_float v =
     (case v of
        None \<Rightarrow> Inl TypeError
      | Some s \<Rightarrow>
          (case split_sign (py_strip s) of
             (neg, body) \<Rightarrow>
               let low = map lower_char body;
                   sgn = (\<lambda>x. if neg then fneg x else x)
               in if low = ''inf'' \<or> low = ''infinity'' then Inr (sgn PosInf)
                  else if low = ''nan'' then Inr NaN
                  else
                    (case split_first (\<lambda>c. c = CHR ''e'' \<or> c = CHR ''E'') body of
                       (mant, ex) \<Rightarrow>
                         (case (parse_number mant, parse_exponent ex) of
                            (Some (n, k), Some e) \<Rightarrow>
                              Inr (sgn (round_double (of_int n * pow10 (e - int k))))
                          | _ \<Rightarrow> Inl ValueError))))"

text \<open>\<^verbatim>\<open>x * 1000\<close> on floats.\<close>

definition times_1000 :: "pyfloat \<Rightarrow> pyfloat" where
  "times_1000 x = (case x of Finite q \<Rightarrow> round_double (q * 1000) | _ \<Rightarrow> x)"

text \<open>\<^verbatim>\<open>int(x)\<close> truncates toward zero; it raises on infinities and NaN.\<close>

definition trunc_rat :: "rat \<Rightarrow> int" where
  "trunc_rat q = (if 0 \<le> q then \<lfloor>q\<rfloor> else - \<lfloor>- q\<rfloor>)"

definition py_int :: "pyfloat \<Rightarrow> exn + int" where
  "py_int x =
     (case x of
        Finite q \<Rightarrow> Inr (trunc_rat q)
      | PosInf \<Rightarrow> Inl OverflowError
      | NegInf \<Rightarrow> Inl OverflowError
      | NaN \<Rightarrow> Inl ValueError)"

text \<open>The decimal digits of a number that is not negative.\<close>

function str_digits :: "int \<Rightarrow> string" where
  "str_digits n =
     (if n < 10 then [char_of (48 + n)]
      else str_digits (n div 10) @ [char_of (48 + n mod 10)])"
  by pat_completeness auto
termination
  by (relation "measure nat") auto

definition str_int :: "int \<Rightarrow> string" where
  "str_int i = (if i < 0 then CHR ''-'' # str_digits (- i) else str_digits i)"

text \<open>\<^verbatim>\<open>str(int(float(testCase.get('time')) * 1000))\<close>.\<close>

definition duration_of :: "string option \<Rightarrow> exn + string" where
  "duration_of v =
     (case py_float v of
        Inl e \<Rightarrow> Inl e
      | Inr x \<Rightarrow> (case py_int (times_1000 x) of Inl e \<Rightarrow> Inl e | Inr i \<Rightarrow> Inr (str_int i)))"

section \<open>XML trees\<close>

text \<open>
  An \<^verbatim>\<open>lxml\<close> node: an element with its tag, attributes, leading text and child nodes,
  or another kind of child (a comment or a processing instruction), whose \<^verbatim>\<open>tag\<close> is not
  a string.
\<close>

datatype node =
    Element string "(string \<times> string) list" "string option" "node list"
  | Other

definition tag_of :: "node \<Rightarrow> string option" where
  "tag_of n = (case n of Element t a x cs \<Rightarrow> Some t | Other \<Rightarrow> None)"

definition node_get :: "node \<Rightarrow> string \<Rightarrow> string option" where
  "node_get n k = (case n of Element t a x cs \<Rightarrow> map_of a k | Other \<Rightarrow> None)"

definition text_of :: "node \<Rightarrow> string option" where
  "text_of n = (case n of Element t a x cs \<Rightarrow> x | Other \<Rightarrow> None)"

definition children_of :: "node \<Rightarrow> node list" where
  "children_of n = (case n of Element t a x cs \<Rightarrow> cs | Other \<Rightarrow> [])"

text \<open>\<^verbatim>\<open>node.xpath('c')\<close>: the child elements named \<open>c\<close>, in document order.\<close>

definition xpath_child :: "string \<Rightarrow> node \<Rightarrow> node list" where
  "xpath_child c n = filter (\<lambda>k. tag_of k = Some c) (children_of n)"

text \<open>\<^verbatim>\<open>tree.xpath('/r/c')\<close>: the children named \<open>c\<close> of a root element named \<open>r\<close>.\<close>

definition xpath_root_child :: "string \<Rightarrow> string \<Rightarrow> node \<Rightarrow> node list" where
  "xpath_root_child r c tree = (if tag_of tree = Some r then xpath_child c tree else [])"

section \<open>The data model\<close>

datatype TestMsgType = failure | error | skipped

definition test_msg_type_map :: "TestMsgType \<Rightarrow> string" where
  "test_msg_type_map t =
     (case t of skipped \<Rightarrow> ''skipped'' | failure \<Rightarrow> ''failure'' | error \<Rightarrow> ''error'')"

definition test_msg_tag_map :: "string \<Rightarrow> TestMsgType option" where
  "test_msg_tag_map = map_of [(''skipped'', skipped), (''failure'', failure), (''error'', error)]"

text \<open>\<^verbatim>\<open>str(m)\<close> for a member of the enumeration.\<close>

definition str_TestMsgType :: "TestMsgType \<Rightarrow> string" where
  "str_TestMsgType t =
     (case t of
        failure \<Rightarrow> ''TestMsgType.failure''
      | error \<Rightarrow> ''TestMsgType.error''
      | skipped \<Rightarrow> ''TestMsgType.skipped'')"

text \<open>
  Class \<^verbatim>\<open>TestMsg\<close>: the fields \<^verbatim>\<open>_msg_type\<close>, \<^verbatim>\<open>_short_msg\<close>, \<^verbatim>\<open>_long_msg\<close> set by the
  constructor, and the three properties as the source defines them.
\<close>

record TestMsg =
  priv_msg_type :: TestMsgType
  priv_short_msg :: string
  priv_long_msg :: string

definition TestMsg_init :: "TestMsgType \<Rightarrow> string option \<Rightarrow> string option \<Rightarrow> TestMsg" where
  "TestMsg_init mt sm lm =
     \<lparr>priv_msg_type = mt,
      priv_short_msg = (case sm of None \<Rightarrow> [] | Some s \<Rightarrow> s),
      priv_long_msg = (case lm of None \<Rightarrow> [] | Some s \<Rightarrow> s)\<rparr>"

definition msg_type :: "TestMsg \<Rightarrow> TestMsgType" where
  "msg_type m = priv_msg_type m"

definition short_msg :: "TestMsg \<Rightarrow> TestMsgType" where
  "short_msg m = priv_msg_type m"

definition long_msg :: "TestMsg \<Rightarrow> string" where
  "long_msg m = priv_long_msg m"

record TestCase =
  name :: string
  duration :: string
  msg :: "TestMsg option"

text \<open>Class \<^verbatim>\<open>SonarTestExcution\<close>; the file path is a string or \<^verbatim>\<open>None\<close>.\<close>

record SonarTestExcution =
  file_path :: "string option"
  test_cases :: "TestCase list"

definition SonarTestExcution_init :: "string option \<Rightarrow> SonarTestExcution" where
  "SonarTestExcution_init p = \<lparr>file_path = p, test_cases = []\<rparr>"

definition add_test_case :: "TestCase \<Rightarrow> SonarTestExcution \<Rightarrow> SonarTestExcution" where
  "add_test_case tc e = e\<lparr>test_cases := test_cases e @ [tc]\<rparr>"

definition add_test_cases :: "TestCase list \<Rightarrow> SonarTestExcution \<Rightarrow> SonarTestExcution" where
  "add_test_cases tcs e = e\<lparr>test_cases := test_cases e @ tcs\<rparr>"

text \<open>
  A dictionary from file paths to groups keeps its keys in insertion order, so it is an
  association list with distinct keys: a new key goes to the end, an existing entry is
  changed in place.
\<close>

type_synonym executions = "(string option \<times> SonarTestExcution) list"

text \<open>\<^verbatim>\<open>if key not in d: d[key] = SonarTestExcution(key)\<close>\<close>

definition ensure_group :: "string option \<Rightarrow> executions \<Rightarrow> executions" where
  "ensure_group k d = (if map_of d k = None then d @ [(k, SonarTestExcution_init k)] else d)"

text \<open>What the program prints.\<close>

datatype diag =
    CantParse string exn
  | NotInSource string
  | GtestOptionsRequired

text \<open>A \<^verbatim>\<open>for\<close> loop whose body may raise: the state reached is kept, the loop stops.\<close>

fun for_each :: "('a \<Rightarrow> 's \<Rightarrow> 's \<times> exn option) \<Rightarrow> 'a list \<Rightarrow> 's \<Rightarrow> 's \<times> exn option" where
  "for_each f [] s = (s, None)"
| "for_each f (x # xs) s =
     (case f x s of
        (s', Some e) \<Rightarrow> (s', Some e)
      | (s', None) \<Rightarrow> for_each f xs s')"

section \<open>The serializer\<close>

text \<open>
  \<^verbatim>\<open>SonarTestExcutionsXmlSerializer.serialize\<close> builds the tree that \<^verbatim>\<open>etree.tostring\<close>
  renders; the model returns the tree. \<^verbatim>\<open>etree.SubElement\<close> raises TypeError for an
  attribute value that is \<^verbatim>\<open>None\<close>.
\<close>

definition serialize_msg :: "TestMsg \<Rightarrow> node" where
  "serialize_msg m =
     Element (test_msg_type_map (msg_type m))
       [(''message'', str_TestMsgType (short_msg m))] (Some (long_msg m)) []"

definition serialize_test_case :: "TestCase \<Rightarrow> node" where
  "serialize_test_case tc =
     Element ''testCase'' [(''name'', name tc), (''duration'', duration tc)] None
       (case msg tc of None \<Rightarrow> [] | Some m \<Rightarrow> [serialize_msg m])"

definition serialize_execution :: "SonarTestExcution \<Rightarrow> exn + node" where
  "serialize_execution execution =
     (case file_path execution of
        None \<Rightarrow> Inl TypeError
      | Some p \<Rightarrow> Inr (Element ''file'' [(''path'', p)] None
                       (map serialize_test_case (test_cases execution))))"

fun serialize_executions :: "SonarTestExcution list \<Rightarrow> exn + node list" where
  "serialize_executions [] = Inr []"
| "serialize_executions (x # xs) =
     (case serialize_execution x of
        Inl e \<Rightarrow> Inl e
      | Inr f \<Rightarrow> (case serialize_executions xs of Inl e \<Rightarrow> Inl e | Inr fs \<Rightarrow> Inr (f # fs)))"

definition serialize :: "SonarTestExcution list \<Rightarrow> exn + node" where
  "serialize test_executions =
     (case serialize_executions test_executions of
        Inl e \<Rightarrow> Inl e
      | Inr fs \<Rightarrow> Inr (Element ''testExecutions'' [(''version'', ''1'')] None fs))"

section \<open>The JUnit report parser\<close>

text \<open>\<^verbatim>\<open>JUnitTestReportParser.doParseMsg\<close>\<close>

definition doParseMsg :: "node \<Rightarrow> TestMsg option" where
  "doParseMsg test_case_node =
     (case children_of test_case_node of
        [] \<Rightarrow> None
      | c # _ \<Rightarrow>
          (case tag_of c of
             None \<Rightarrow> None
           | Some t \<Rightarrow>
               (case test_msg_tag_map t of
                  None \<Rightarrow> None
                | Some mt \<Rightarrow> Some (TestMsg_init mt (node_get c ''message'') (text_of c)))))"

text \<open>
  The environment of a run: the directory walk (\<^verbatim>\<open>os.walk\<close> yields nothing for a root
  that does not exist), \<^verbatim>\<open>etree.parse\<close>, reading the lines of a text file, and
  \<^verbatim>\<open>re.compile(p)\<close> with the compiled pattern as the predicate
  \<^verbatim>\<open>regexp.search(name) is not None\<close>. Opening the output file is taken to succeed.
\<close>

record env =
  walk :: "string \<Rightarrow> (string \<times> string list) list"
  parse_xml :: "string \<Rightarrow> exn + node"
  read_lines :: "string \<Rightarrow> exn + string list"
  re_compile :: "string \<Rightarrow> exn + (string \<Rightarrow> bool)"

text \<open>\<^verbatim>\<open>os.path.join(a, b)\<close> on POSIX.\<close>

definition path_join :: "string \<Rightarrow> string \<Rightarrow> string" where
  "path_join a b =
     (if take 1 b = ''/'' then b
      else if a = [] \<or> last a = CHR ''/'' then a @ b
      else a @ ''/'' @ b)"

text \<open>The body of the loop over \<^verbatim>\<open>/testsuite/testcase\<close> in \<^verbatim>\<open>JUnitTestReportParser.doParse\<close>:
  the group is created first, then the \<^verbatim>\<open>TestCase(...)\<close> expression is evaluated
  (\<open>junit_test_case\<close>; the conversion of \<^verbatim>\<open>time\<close> may raise), then the test case is added.\<close>

definition junit_test_case :: "node \<Rightarrow> exn + TestCase" where
  "junit_test_case testCase =
     (case duration_of (node_get testCase ''time'') of
        Inl e \<Rightarrow> Inl e
      | Inr dur \<Rightarrow>
          Inr \<lparr>name = format_dotted (node_get testCase ''classname'') (node_get testCase ''name''),
               duration = dur,
               msg = doParseMsg testCase\<rparr>)"

definition junit_case_step :: "node \<Rightarrow> executions \<Rightarrow> executions \<times> exn option" where
  "junit_case_step testCase d =
     (let file = node_get testCase ''file'';
          d1 = ensure_group file d
      in case junit_test_case testCase of
           Inl e \<Rightarrow> (d1, Some e)
         | Inr tc \<Rightarrow> (AList.map_entry file (add_test_case tc) d1, None))"

text \<open>\<^verbatim>\<open>JUnitTestReportParser.doParse\<close>: the dictionary returned and what was printed.
  \<open>JUnit_doParse_tree\<close> is the \<^verbatim>\<open>try\<close> block after \<^verbatim>\<open>etree.parse\<close> has returned a tree: the
  dictionary as the loop left it, and the exception that ended the loop, if any.\<close>

definition JUnit_doParse_tree :: "node \<Rightarrow> executions \<times> exn option" where
  "JUnit_doParse_tree tree =
     for_each junit_case_step (xpath_root_child ''testsuite'' ''testcase'' tree) []"

definition JUnit_doParse :: "env \<Rightarrow> string \<Rightarrow> executions \<times> diag list" where
  "JUnit_doParse ev report_file_path =
     (case parse_xml ev report_file_path of
        Inl e \<Rightarrow> ([], [CantParse report_file_path e])
      | Inr tree \<Rightarrow>
          (case JUnit_doParse_tree tree of
             (d, None) \<Rightarrow> (d, [])
           | (d, Some e) \<Rightarrow> (d, [CantParse report_file_path e])))"

text \<open>The aggregation loop shared by both \<^verbatim>\<open>parse\<close> functions, over the items of one
  report's dictionary.\<close>

definition merge_items :: "(string option \<times> SonarTestExcution) list \<Rightarrow> executions \<Rightarrow> executions" where
  "merge_items items acc =
     fold (\<lambda>(key, val) a. AList.map_entry key (add_test_cases (test_cases val)) (ensure_group key a))
       items acc"

text \<open>\<^verbatim>\<open>executionDict.iteritems()\<close>: a Python 3 dictionary has no such attribute.\<close>

definition dict_iteritems :: "executions \<Rightarrow> exn + (string option \<times> SonarTestExcution) list" where
  "dict_iteritems d = Inl AttributeError"

text \<open>\<^verbatim>\<open>iter(executionDict.items())\<close>\<close>

definition dict_items :: "executions \<Rightarrow> (string option \<times> SonarTestExcution) list" where
  "dict_items d = d"

definition junit_file_step ::
  "env \<Rightarrow> (string \<Rightarrow> bool) \<Rightarrow> string \<Rightarrow> string \<Rightarrow> executions \<times> diag list
     \<Rightarrow> (executions \<times> diag list) \<times> exn option" where
  "junit_file_step ev regexp dirName fileName s =
     (case s of (acc, out) \<Rightarrow>
        if regexp fileName then
          (case JUnit_doParse ev (path_join dirName fileName) of
             (executionDict, printed) \<Rightarrow>
               (case dict_iteritems executionDict of
                  Inl e \<Rightarrow> ((acc, out @ printed), Some e)
                | Inr items \<Rightarrow> ((merge_items items acc, out @ printed), None)))
        else ((acc, out), None))"

text \<open>\<^verbatim>\<open>JUnitTestReportParser.parse\<close>: the groups or the exception raised, and what was
  printed.\<close>

definition JUnit_parse :: "env \<Rightarrow> string \<Rightarrow> string \<Rightarrow> (exn + SonarTestExcution list) \<times> diag list" where
  "JUnit_parse ev searching_folder_path searching_report_file_pattern =
     (case re_compile ev searching_report_file_pattern of
        Inl e \<Rightarrow> (Inl e, [])
      | Inr regexp \<Rightarrow>
          (case for_each (\<lambda>(dirName, fileList). for_each (junit_file_step ev regexp dirName) fileList)
                  (walk ev searching_folder_path) ([], []) of
             ((acc, out), None) \<Rightarrow> (Inr (map snd acc), out)
           | ((acc, out), Some e) \<Rightarrow> (Inl e, out)))"

section \<open>The Google Test report parser\<close>

subsection \<open>The source index\<close>

text \<open>
  \<^verbatim>\<open>GTEST_RE = re.compile(r'TEST.*\((.+),(.+)\)')\<close>, matched with \<^verbatim>\<open>search\<close>: the
  leftmost start, every repetition greedy, \<^verbatim>\<open>.\<close> any character but a newline.
  \<open>dot_splits s\<close> lists the ways a greedy repetition of \<^verbatim>\<open>.\<close> can split \<open>s\<close>, in the order
  in which backtracking tries them (longest first).
\<close>

fun dot_splits :: "string \<Rightarrow> (string \<times> string) list" where
  "dot_splits [] = [([], [])]"
| "dot_splits (c # cs) =
     (if c = CHR 0x0A then [] else map (\<lambda>(p, r). (c # p, r)) (dot_splits cs)) @ [([], c # cs)]"

fun first_match :: "('a \<Rightarrow> 'b option) \<Rightarrow> 'a list \<Rightarrow> 'b option" where
  "first_match f [] = None"
| "first_match f (x # xs) = (case f x of Some y \<Rightarrow> Some y | None \<Rightarrow> first_match f xs)"

text \<open>\<^verbatim>\<open>(.+)\)\<close> at the start of \<open>s\<close>: the second group.\<close>

definition match_group2 :: "string \<Rightarrow> string option" where
  "match_group2 s =
     first_match (\<lambda>(p, r). if p \<noteq> [] \<and> take 1 r = '')'' then Some p else None) (dot_splits s)"

text \<open>\<^verbatim>\<open>(.+),(.+)\)\<close> at the start of \<open>s\<close>: both groups.\<close>

definition match_groups :: "string \<Rightarrow> (string \<times> string) option" where
  "match_groups s =
     first_match
       (\<lambda>(p, r). if p \<noteq> [] \<and> take 1 r = '','' then map_option (Pair p) (match_group2 (drop 1 r)) else None)
       (dot_splits s)"

text \<open>\<^verbatim>\<open>.*\((.+),(.+)\)\<close> at the start of \<open>s\<close>.\<close>

definition match_after_TEST :: "string \<Rightarrow> (string \<times> string) option" where
  "match_after_TEST s =
     first_match (\<lambda>(p, r). if take 1 r = ''('' then match_groups (drop 1 r) else None) (dot_splits s)"

fun GTEST_RE_search :: "string \<Rightarrow> (string \<times> string) option" where
  "GTEST_RE_search [] = None"
| "GTEST_RE_search (c # cs) =
     (case (if take 4 (c # cs) = ''TEST'' then match_after_TEST (drop 4 (c # cs)) else None) of
        Some g \<Rightarrow> Some g
      | None \<Rightarrow> GTEST_RE_search cs)"

type_synonym source_index = "(string \<times> string) list"

text \<open>The body of \<^verbatim>\<open>for line in src_file\<close>; assigning to a key that is present
  overwrites its value.\<close>

definition src_line_step :: "string \<Rightarrow> string \<Rightarrow> source_index \<Rightarrow> source_index" where
  "src_line_step path line idx =
     (case GTEST_RE_search line of
        Some (g1, g2) \<Rightarrow> AList.update (py_strip g1 @ ''.'' @ py_strip g2) path idx
      | None \<Rightarrow> idx)"

definition src_file_step ::
  "env \<Rightarrow> (string \<Rightarrow> bool) \<Rightarrow> string \<Rightarrow> string \<Rightarrow> source_index \<Rightarrow> source_index \<times> exn option" where
  "src_file_step ev regexp dirName fileName idx =
     (if regexp fileName then
        (case read_lines ev (path_join dirName fileName) of
           Inl e \<Rightarrow> (idx, Some e)
         | Inr lines \<Rightarrow> (fold (src_line_step (path_join dirName fileName)) lines idx, None))
      else (idx, None))"

text \<open>\<^verbatim>\<open>GoogleTestReportParser.doParseSrcFolder\<close>\<close>

definition doParseSrcFolder :: "env \<Rightarrow> string \<Rightarrow> string \<Rightarrow> exn + source_index" where
  "doParseSrcFolder ev gtest_src_folder gtest_file_pattern =
     (case re_compile ev gtest_file_pattern of
        Inl e \<Rightarrow> Inl e
      | Inr regexp \<Rightarrow>
          (case for_each (\<lambda>(dirName, fileList). for_each (src_file_step ev regexp dirName) fileList)
                  (walk ev gtest_src_folder) [] of
             (idx, None) \<Rightarrow> Inr idx
           | (idx, Some e) \<Rightarrow> Inl e))"

subsection \<open>One report file\<close>

text \<open>The body of the loop over the test cases of one suite in
  \<^verbatim>\<open>GoogleTestReportParser.doParse\<close>.\<close>

definition gtest_test_case :: "string \<Rightarrow> node \<Rightarrow> exn + TestCase" where
  "gtest_test_case testName testCase =
     (case duration_of (node_get testCase ''time'') of
        Inl e \<Rightarrow> Inl e
      | Inr dur \<Rightarrow> Inr \<lparr>name = testName, duration = dur, msg = doParseMsg testCase\<rparr>)"

definition gtest_case_step ::
  "source_index \<Rightarrow> string option \<Rightarrow> node \<Rightarrow> executions \<times> diag list
     \<Rightarrow> (executions \<times> diag list) \<times> exn option" where
  "gtest_case_step test_name_to_source_name test_suite_name testCase s =
     (case s of (d, out) \<Rightarrow>
        let testName = format_dotted test_suite_name (node_get testCase ''name'')
        in case map_of test_name_to_source_name testName of
             Some test_file_name \<Rightarrow>
               (let d1 = ensure_group (Some test_file_name) d
                in case gtest_test_case testName testCase of
                     Inl e \<Rightarrow> ((d1, out), Some e)
                   | Inr tc \<Rightarrow>
                       ((AList.map_entry (Some test_file_name) (add_test_case tc) d1, out), None))
           | None \<Rightarrow> ((d, out @ [NotInSource testName]), None))"

definition gtest_suite_step ::
  "source_index \<Rightarrow> node \<Rightarrow> executions \<times> diag list \<Rightarrow> (executions \<times> diag list) \<times> exn option" where
  "gtest_suite_step test_name_to_source_name testSuite s =
     for_each (gtest_case_step test_name_to_source_name (node_get testSuite ''name''))
       (xpath_child ''testcase'' testSuite) s"

text \<open>\<^verbatim>\<open>GoogleTestReportParser.doParse\<close>: the dictionary returned and what was printed;
  \<open>GoogleTest_doParse_tree\<close> is the \<^verbatim>\<open>try\<close> block after \<^verbatim>\<open>etree.parse\<close>.\<close>

definition GoogleTest_doParse_tree ::
  "source_index \<Rightarrow> node \<Rightarrow> (executions \<times> diag list) \<times> exn option" where
  "GoogleTest_doParse_tree test_name_to_source_name tree =
     for_each (gtest_suite_step test_name_to_source_name)
       (xpath_root_child ''testsuites'' ''testsuite'' tree) ([], [])"

definition GoogleTest_doParse :: "env \<Rightarrow> string \<Rightarrow> source_index \<Rightarrow> executions \<times> diag list" where
  "GoogleTest_doParse ev gtest_report_path test_name_to_source_name =
     (case parse_xml ev gtest_report_path of
        Inl e \<Rightarrow> ([], [CantParse gtest_report_path e])
      | Inr tree \<Rightarrow>
          (case GoogleTest_doParse_tree test_name_to_source_name tree of
             ((d, out), None) \<Rightarrow> (d, out)
           | ((d, out), Some e) \<Rightarrow> (d, out @ [CantParse gtest_report_path e])))"

subsection \<open>All report files\<close>

definition gtest_file_step ::
  "env \<Rightarrow> (string \<Rightarrow> bool) \<Rightarrow> source_index \<Rightarrow> string \<Rightarrow> string \<Rightarrow> executions \<times> diag list
     \<Rightarrow> executions \<times> diag list" where
  "gtest_file_step ev regexp test_name_to_source_name dirName fileName s =
     (case s of (acc, out) \<Rightarrow>
        if regexp fileName then
          (case GoogleTest_doParse ev (path_join dirName fileName) test_name_to_source_name of
             (executionDict, printed) \<Rightarrow> (merge_items (dict_items executionDict) acc, out @ printed))
        else (acc, out))"

text \<open>\<^verbatim>\<open>GoogleTestReportParser.parse\<close>: the groups or the exception raised, and what was
  printed.\<close>

definition GoogleTest_parse ::
  "env \<Rightarrow> string \<Rightarrow> string \<Rightarrow> string \<Rightarrow> string \<Rightarrow> (exn + SonarTestExcution list) \<times> diag list" where
  "GoogleTest_parse ev searching_folder_path searching_report_file_pattern gtest_src_path gtest_file_pattern =
     (case doParseSrcFolder ev gtest_src_path gtest_file_pattern of
        Inl e \<Rightarrow> (Inl e, [])
      | Inr test_name_to_source_name \<Rightarrow>
          (case re_compile ev searching_report_file_pattern of
             Inl e \<Rightarrow> (Inl e, [])
           | Inr regexp \<Rightarrow>
               (case fold (\<lambda>(dirName, fileList).
                             fold (gtest_file_step ev regexp test_name_to_source_name dirName) fileList)
                       (walk ev searching_folder_path) ([], []) of
                  (acc, out) \<Rightarrow> (Inr (map snd acc), out))))"

section \<open>The main program\<close>

text \<open>
  The arguments after \<^verbatim>\<open>argparse\<close> has accepted them: the report type is one of the two
  choices, the four required options are strings, the two gtest options may be absent.
\<close>

datatype report_type = junit | gtest

record args =
  report_type :: report_type
  search_folder :: string
  report_pattern :: string
  output_path :: string
  gtest_src_folder :: "string option"
  gtest_src_pattern :: "string option"

text \<open>
  How a run ends: \<open>Exited n\<close> for \<^verbatim>\<open>sys.exit(n)\<close> and for running to the end (\<open>n = 0\<close>),
  \<open>Raised e\<close> for an exception that nothing catches. The output file is untouched,
  opened (so created or truncated) but not written, or written with a document.
\<close>

datatype status = Exited nat | Raised exn

datatype output_file = Untouched | Truncated | Written node

record run =
  status :: status
  stdout :: "diag list"
  output_file :: output_file

definition exit_code :: "status \<Rightarrow> nat" where
  "exit_code st = (case st of Exited n \<Rightarrow> n | Raised e \<Rightarrow> 1)"

text \<open>The last two lines of the script, reached with the parser's result.\<close>

definition write_output :: "(exn + SonarTestExcution list) \<times> diag list \<Rightarrow> run" where
  "write_output r =
     (case r of
        (Inl e, out) \<Rightarrow> \<lparr>status = Raised e, stdout = out, output_file = Untouched\<rparr>
      | (Inr groups, out) \<Rightarrow>
          (case serialize groups of
             Inl e \<Rightarrow> \<lparr>status = Raised e, stdout = out, output_file = Truncated\<rparr>
           | Inr doc \<Rightarrow> \<lparr>status = Exited 0, stdout = out, output_file = Written doc\<rparr>))"

definition main :: "env \<Rightarrow> args \<Rightarrow> run" where
  "main ev a =
     (case report_type a of
        junit \<Rightarrow> write_output (JUnit_parse ev (search_folder a) (report_pattern a))
      | gtest \<Rightarrow>
          (case (gtest_src_folder a, gtest_src_pattern a) of
             (Some src_folder, Some src_pattern) \<Rightarrow>
               write_output
                 (GoogleTest_parse ev (search_folder a) (report_pattern a) src_folder src_pattern)
           | _ \<Rightarrow> \<lparr>status = Exited 1, stdout = [GtestOptionsRequired], output_file = Untouched\<rparr>))"

section \<open>Notions used to state the properties\<close>

text \<open>A child element that represents a failure, error or skipped status, and the
  message such a child carries.\<close>

definition is_status_child :: "node \<Rightarrow> bool" where
  "is_status_child c = (case tag_of c of None \<Rightarrow> False | Some t \<Rightarrow> t \<in> {''failure'', ''error'', ''skipped''})"

definition child_msg :: "node \<Rightarrow> TestMsg option" where
  "child_msg c =
     (case tag_of c of
        None \<Rightarrow> None
      | Some t \<Rightarrow>
          if t = ''failure'' then Some (TestMsg_init failure (node_get c ''message'') (text_of c))
          else if t = ''error'' then Some (TestMsg_init error (node_get c ''message'') (text_of c))
          else if t = ''skipped'' then Some (TestMsg_init skipped (node_get c ''message'') (text_of c))
          else None)"

text \<open>The specification's reading of message extraction: the message of the first child
  that represents a status, wherever it stands among the children.\<close>

definition spec_first_status_msg :: "node \<Rightarrow> TestMsg option" where
  "spec_first_status_msg n =
     (case filter is_status_child (children_of n) of [] \<Rightarrow> None | c # _ \<Rightarrow> child_msg c)"

text \<open>The test cases a dictionary holds for a key, and the dictionaries in which every
  group carries its key as file path.\<close>

definition cases_of :: "executions \<Rightarrow> string option \<Rightarrow> TestCase list" where
  "cases_of d k = (case map_of d k of None \<Rightarrow> [] | Some g \<Rightarrow> test_cases g)"

definition keyed :: "executions \<Rightarrow> bool" where
  "keyed d = (\<forall>(k, g) \<in> set d. file_path g = k)"

text \<open>The files a walk visits whose names match, as joined paths in walk order.\<close>

definition matching_paths :: "env \<Rightarrow> string \<Rightarrow> (string \<Rightarrow> bool) \<Rightarrow> string list" where
  "matching_paths ev folder regexp =
     concat (map (\<lambda>(dirName, fileList). map (path_join dirName) (filter regexp fileList)) (walk ev folder))"

text \<open>The number a float literal denotes, without rounding, and the specification's
  \<^verbatim>\<open>floor(t*1000)\<close> for it.\<close>

definition decimal_value :: "string \<Rightarrow> rat option" where
  "decimal_value s =
     (case split_sign (py_strip s) of
        (neg, body) \<Rightarrow>
          (case split_first (\<lambda>c. c = CHR ''e'' \<or> c = CHR ''E'') body of
             (mant, ex) \<Rightarrow>
               (case (parse_number mant, parse_exponent ex) of
                  (Some (n, k), Some e) \<Rightarrow>
                    Some ((if neg then - 1 else 1) * of_int n * pow10 (e - int k))
                | _ \<Rightarrow> None)))"

definition spec_duration :: "string \<Rightarrow> string option" where
  "spec_duration t = map_option (\<lambda>q. str_int \<lfloor>q * 1000\<rfloor>) (decimal_value t)"

text \<open>The \<^verbatim>\<open>file\<close> element the serializer writes for a dictionary entry.\<close>

definition file_element :: "string option \<times> SonarTestExcution \<Rightarrow> node" where
  "file_element kg =
     Element ''file'' [(''path'', case fst kg of None \<Rightarrow> [] | Some p \<Rightarrow> p)] None
       (map serialize_test_case (test_cases (snd kg)))"

text \<open>A Google Test report without the test cases whose qualified name the source index
  does not know.\<close>

definition known_case :: "source_index \<Rightarrow> string option \<Rightarrow> node \<Rightarrow> bool" where
  "known_case idx suite_name c = (map_of idx (format_dotted suite_name (node_get c ''name'')) \<noteq> None)"

definition drop_unknown_in_suite :: "source_index \<Rightarrow> node \<Rightarrow> node" where
  "drop_unknown_in_suite idx suite =
     (case suite of
        Element t a x cs \<Rightarrow>
          if t = ''testsuite''
          then Element t a x
                 (filter (\<lambda>c. tag_of c = Some ''testcase'' \<longrightarrow> known_case idx (map_of a ''name'') c) cs)
          else suite
      | Other \<Rightarrow> Other)"

definition drop_unknown_cases :: "source_index \<Rightarrow> node \<Rightarrow> node" where
  "drop_unknown_cases idx tree =
     (case tree of
        Element t a x suites \<Rightarrow> Element t a x (map (drop_unknown_in_suite idx) suites)
      | Other \<Rightarrow> Other)"

text \<open>The index entry a source line gives rise to, and all entries of the files read, in
  the order of the scan.\<close>

definition line_entry :: "string \<Rightarrow> string \<Rightarrow> (string \<times> string) option" where
  "line_entry path line =
     map_option (\<lambda>(g1, g2). (py_strip g1 @ ''.'' @ py_strip g2, path)) (GTEST_RE_search line)"

definition src_entries :: "env \<Rightarrow> string list \<Rightarrow> (string \<times> string) list" where
  "src_entries ev paths =
     concat (map (\<lambda>p. case read_lines ev p of Inl e \<Rightarrow> [] | Inr ls \<Rightarrow> List.map_filter (line_entry p) ls) paths)"

text \<open>The dictionaries of a Google Test run: distinct keys, every group under its own
  path, every path a source file of the index, every test case named in the index.\<close>

definition index_groups :: "source_index \<Rightarrow> executions \<Rightarrow> bool" where
  "index_groups idx d =
     (\<forall>(k, g) \<in> set d. (\<exists>p. k = Some p \<and> p \<in> snd ` set idx)
        \<and> (\<forall>t \<in> set (test_cases g). map_of idx (name t) \<noteq> None))"

definition wf_executions :: "source_index \<Rightarrow> executions \<Rightarrow> bool" where
  "wf_executions idx d = (distinct (map fst d) \<and> keyed d \<and> index_groups idx d)"

text \<open>What one matching report file does to the aggregated dictionary and the output.\<close>

definition gtest_path_step :: "env \<Rightarrow> source_index \<Rightarrow> string \<Rightarrow> executions \<times> diag list \<Rightarrow> executions \<times> diag list" where
  "gtest_path_step ev idx p s =
     (merge_items (fst (GoogleTest_doParse ev p idx)) (fst s), snd s @ snd (GoogleTest_doParse ev p idx))"

text \<open>The qualified names of the test cases of a Google Test report, in document order.\<close>

definition qualified_names :: "node \<Rightarrow> string list" where
  "qualified_names tree =
     concat (map (\<lambda>s. map (\<lambda>c. format_dotted (node_get s ''name'') (node_get c ''name''))
                          (xpath_child ''testcase'' s))
                 (xpath_root_child ''testsuites'' ''testsuite'' tree))"

text \<open>Recording one entry in the index.\<close>

definition upd_entry :: "string \<times> string \<Rightarrow> source_index \<Rightarrow> source_index" where
  "upd_entry e idx = AList.update (fst e) (snd e) idx"

subsection \<open>A report directory with one malformed and one valid report\<close>

text \<open>
  The directory \<^verbatim>\<open>reports\<close> holds \<^verbatim>\<open>bad.xml\<close>, which is not well-formed, and \<^verbatim>\<open>good.xml\<close>,
  which parses to the given tree; \<^verbatim>\<open>src\<close> holds one Google Test source file. The
  pattern \<^verbatim>\<open>.*\<close> matches every file name.
\<close>

definition scenario_env :: "node \<Rightarrow> env" where
  "scenario_env good =
     \<lparr>walk = (\<lambda>d. if d = ''reports'' then [(''reports'', [''bad.xml'', ''good.xml''])]
                  else if d = ''src'' then [(''src'', [''foo_test.cpp''])]
                  else []),
      parse_xml = (\<lambda>p. if p = ''reports/good.xml'' then Inr good
                       else if p = ''reports/bad.xml'' then Inl XMLSyntaxError
                       else Inl OSError),
      read_lines = (\<lambda>p. if p = ''src/foo_test.cpp''
                        then Inr [''TEST(Foo, t1) {'' @ [CHR 0x0A], ''}'' @ [CHR 0x0A],
                                  ''TEST(Foo, t2) {'' @ [CHR 0x0A], ''}'' @ [CHR 0x0A]]
                        else Inl OSError),
      re_compile = (\<lambda>p. if p = ''.*'' then Inr (\<lambda>n. True) else Inl ReError)\<rparr>"

definition junit_good_report :: node where
  "junit_good_report =
     Element ''testsuite'' [(''name'', ''suite'')] None
       [Element ''testcase''
          [(''name'', ''t1''), (''classname'', ''Foo''), (''file'', ''foo.cpp''), (''time'', ''0.125'')]
          None []]"

definition gtest_good_report :: node where
  "gtest_good_report =
     Element ''testsuites'' [] None
       [Element ''testsuite'' [(''name'', ''Foo'')] None
          [Element ''testcase'' [(''name'', ''t1''), (''time'', ''0.002'')] None []]]"

text \<open>Reports whose second test case has no \<^verbatim>\<open>time\<close> attribute, so that its conversion
  raises TypeError after the first test case has been read.\<close>

definition junit_failing_report :: node where
  "junit_failing_report =
     Element ''testsuite'' [(''name'', ''suite'')] None
       [Element ''testcase''
          [(''name'', ''t1''), (''classname'', ''Foo''), (''file'', ''foo.cpp''), (''time'', ''0.125'')]
          None [],
        Element ''testcase'' [(''name'', ''t2''), (''classname'', ''Foo''), (''file'', ''foo.cpp'')]
          None []]"

definition gtest_failing_report :: node where
  "gtest_failing_report =
     Element ''testsuites'' [] None
       [Element ''testsuite'' [(''name'', ''Foo'')] None
          [Element ''testcase'' [(''name'', ''t1''), (''time'', ''0.002'')] None [],
           Element ''testcase'' [(''name'', ''t2'')] None []]]"

definition junit_args :: args where
  "junit_args =
     \<lparr>report_type = junit, search_folder = ''reports'', report_pattern = ''.*'',
      output_path = ''out.xml'', gtest_src_folder = None, gtest_src_pattern = None\<rparr>"

definition gtest_args :: args where
  "gtest_args =
     \<lparr>report_type = gtest, search_folder = ''reports'', report_pattern = ''.*'',
      output_path = ''out.xml'', gtest_src_folder = Some ''src'', gtest_src_pattern = Some ''.*''\<rparr>"

subsection \<open>Two report files and two source files\<close>

text \<open>
  Two report files, \<^verbatim>\<open>reports/a.xml\<close> and \<^verbatim>\<open>reports/sub/b.xml\<close>, both holding the test
  \<^verbatim>\<open>Foo.t1\<close>; two source files, both declaring \<^verbatim>\<open>TEST(Foo, t1)\<close>, the first also
  \<^verbatim>\<open>TEST( Foo , t2 )\<close>.
\<close>

definition two_files_env :: env where
  "two_files_env =
     \<lparr>walk = (\<lambda>d. if d = ''reports'' then [(''reports'', [''a.xml'']), (''reports/sub'', [''b.xml''])]
                  else if d = ''src'' then [(''src'', [''a.cpp'']), (''src/sub'', [''b.cpp''])]
                  else []),
      parse_xml = (\<lambda>p. if p = ''reports/a.xml'' \<or> p = ''reports/sub/b.xml'' then Inr gtest_good_report
                       else Inl OSError),
      read_lines = (\<lambda>p. if p = ''src/a.cpp''
                        then Inr [''TEST(Foo, t1) {'' @ [CHR 0x0A], ''TEST( Foo , t2 ) {'' @ [CHR 0x0A]]
                        else if p = ''src/sub/b.cpp'' then Inr [''TEST(Foo, t1) {'' @ [CHR 0x0A]]
                        else Inl OSError),
      re_compile = (\<lambda>p. if p = ''.*'' then Inr (\<lambda>n. True) else Inl ReError)\<rparr>"

text \<open>A Google Test report with a test the index knows and one it does not.\<close>

definition gtest_unknown_report :: node where
  "gtest_unknown_report =
     Element ''testsuites'' [] None
       [Element ''testsuite'' [(''name'', ''Foo'')] None
          [Element ''testcase'' [(''name'', ''t9''), (''time'', ''0.5'')] None [],
           Element ''testcase'' [(''name'', ''t1''), (''time'', ''0.25'')] None []]]"

subsection \<open>JUnit reports with a wrapper and with nested elements\<close>

text \<open>
  A report whose root is a \<^verbatim>\<open>testsuites\<close> wrapper, and a report whose \<^verbatim>\<open>testsuite\<close> root
  has a \<^verbatim>\<open>properties\<close> child, a \<^verbatim>\<open>testcase\<close> child that itself contains a \<^verbatim>\<open>testcase\<close>,
  and a nested \<^verbatim>\<open>testsuite\<close> with a \<^verbatim>\<open>testcase\<close> of its own.
\<close>

definition junit_wrapper_report :: node where
  "junit_wrapper_report =
     Element ''testsuites'' [] None
       [Element ''testsuite'' [(''name'', ''s'')] None
          [Element ''testcase''
             [(''name'', ''t1''), (''classname'', ''Foo''), (''file'', ''foo.cpp''), (''time'', ''0.125'')]
             None []]]"

definition junit_nested_report :: node where
  "junit_nested_report =
     Element ''testsuite'' [(''name'', ''s'')] None
       [Element ''properties'' [(''file'', ''p.cpp''), (''time'', ''1'')] None [],
        Element ''testcase''
          [(''name'', ''t1''), (''classname'', ''Foo''), (''file'', ''foo.cpp''), (''time'', ''0.125'')]
          None
          [Element ''testcase''
             [(''name'', ''inner''), (''classname'', ''Foo''), (''file'', ''inner.cpp''), (''time'', ''0.5'')]
             None []],
        Element ''testsuite'' [(''name'', ''sub'')] None
          [Element ''testcase''
             [(''name'', ''nested''), (''classname'', ''Bar''), (''file'', ''bar.cpp''), (''time'', ''0.25'')]
             None []]]"

section \<open>Properties\<close>

subsection \<open>Messages\<close>

lemma is_status_child_iff:
  "is_status_child c \<longleftrightarrow> (\<exists>t mt. tag_of c = Some t \<and> test_msg_tag_map t = Some mt)"
  by (auto simp: is_status_child_def test_msg_tag_map_def split: option.splits)

lemma child_msg_eq:
  "child_msg c =
     (case tag_of c of
        None \<Rightarrow> None
      | Some t \<Rightarrow>
          (case test_msg_tag_map t of
             None \<Rightarrow> None
           | Some mt \<Rightarrow> Some (TestMsg_init mt (node_get c ''message'') (text_of c))))"
  by (auto simp: child_msg_def test_msg_tag_map_def split: option.splits)

lemma doParseMsg_no_status_child:
  "\<forall>k \<in> set (children_of n). \<not> is_status_child k \<Longrightarrow> doParseMsg n = None"
  by (auto simp: doParseMsg_def is_status_child_iff split: list.splits option.splits)

text \<open>
  C1 (the short and the long message of a \<^verbatim>\<open>failure\<close> child reach the output): the code
  at a test case whose \<^verbatim>\<open>failure\<close> child has \<^verbatim>\<open>message="X"\<close> and text \<^verbatim>\<open>Y\<close>. The
  property \<^verbatim>\<open>short_msg\<close> returns the message type, so the \<^verbatim>\<open>message\<close> attribute written
  is \<^verbatim>\<open>TestMsgType.failure\<close> and not \<^verbatim>\<open>X\<close>; the text \<^verbatim>\<open>Y\<close> is kept.
\<close>

theorem short_msg_not_round_tripped:
  "serialize (map snd (fst (JUnit_doParse_tree
       (Element ''testsuite'' [] None
         [Element ''testcase''
            [(''name'', ''t1''), (''classname'', ''Foo''), (''file'', ''foo.cpp''), (''time'', ''0.125'')] None
            [Element ''failure'' [(''message'', ''X'')] (Some ''Y'') []]]))))
   = Inr (Element ''testExecutions'' [(''version'', ''1'')] None
       [Element ''file'' [(''path'', ''foo.cpp'')] None
         [Element ''testCase'' [(''name'', ''Foo.t1''), (''duration'', ''125'')] None
           [Element ''failure'' [(''message'', ''TestMsgType.failure'')] (Some ''Y'') []]]])"
  by code_simp

text \<open>
  C7, as the specification states it, fails: a test case whose \<^verbatim>\<open>failure\<close> child comes
  after another child yields no message, although it has a first child representing a
  failure.
\<close>

theorem doParseMsg_first_status_child_counterexample:
  "doParseMsg (Element ''testcase'' [] None
       [Element ''system-out'' [] None [], Element ''failure'' [(''message'', ''X'')] (Some ''Y'') []]) = None
   \<and> spec_first_status_msg (Element ''testcase'' [] None
       [Element ''system-out'' [] None [], Element ''failure'' [(''message'', ''X'')] (Some ''Y'') []])
     = Some \<lparr>priv_msg_type = failure, priv_short_msg = ''X'', priv_long_msg = ''Y''\<rparr>"
  by (simp add: doParseMsg_def spec_first_status_msg_def children_of_def tag_of_def test_msg_tag_map_def
      is_status_child_def child_msg_def TestMsg_init_def node_get_def text_of_def)

text \<open>
  C7, amended: at most one message is extracted from a \<^verbatim>\<open>testcase\<close> element, and only its
  first child is looked at. When the first child is a failure, error or skipped element,
  the message is taken from it (and is then the message of the first such child), whatever
  the other children are; when the first child is anything else, or when no child is such
  an element, there is no message.
\<close>

theorem doParseMsg_first_child_only:
  "(children_of n = c # cs \<and> is_status_child c \<longrightarrow>
      doParseMsg n = child_msg c \<and> doParseMsg n = spec_first_status_msg n \<and> doParseMsg n \<noteq> None)
   \<and> (children_of n = c # cs \<and> \<not> is_status_child c \<longrightarrow> doParseMsg n = None)
   \<and> ((\<forall>k \<in> set (children_of n). \<not> is_status_child k) \<longrightarrow> doParseMsg n = None)"
  by (auto simp: doParseMsg_def spec_first_status_msg_def child_msg_eq is_status_child_iff
      split: list.splits option.splits)

theorem doParseMsg_first_child_only_witness:
  "doParseMsg (Element ''testcase'' [] None
       [Element ''error'' [(''message'', ''X'')] (Some ''Y'') [], Element ''failure'' [] None []])
     = Some \<lparr>priv_msg_type = error, priv_short_msg = ''X'', priv_long_msg = ''Y''\<rparr>
   \<and> doParseMsg (Element ''testcase'' [] None
       [Element ''system-out'' [] None [], Element ''failure'' [] None []]) = None
   \<and> doParseMsg (Element ''testcase'' [] None [Element ''system-out'' [] None [], Other]) = None"
  using
    doParseMsg_first_child_only [of "Element ''testcase'' [] None
       [Element ''error'' [(''message'', ''X'')] (Some ''Y'') [], Element ''failure'' [] None []]"
       "Element ''error'' [(''message'', ''X'')] (Some ''Y'') []" "[Element ''failure'' [] None []]"]
    doParseMsg_first_child_only [of "Element ''testcase'' [] None
       [Element ''system-out'' [] None [], Element ''failure'' [] None []]"
       "Element ''system-out'' [] None []" "[Element ''failure'' [] None []]"]
    doParseMsg_first_child_only [of "Element ''testcase'' [] None [Element ''system-out'' [] None [], Other]"
       "Element ''system-out'' [] None []" "[Other]"]
  by (simp add: children_of_def is_status_child_def tag_of_def child_msg_def TestMsg_init_def
      node_get_def text_of_def)

subsection \<open>The main program\<close>

text \<open>
  C9: when the report type is \<^verbatim>\<open>gtest\<close> and \<^verbatim>\<open>--gtest_src_folder\<close> or
  \<^verbatim>\<open>--gtest_src_pattern\<close> is missing, the program prints its message and exits with
  status 1, whatever the environment holds: nothing is scanned or parsed, and the output
  file is not touched.
\<close>

theorem main_gtest_options_required:
  "report_type a = gtest \<Longrightarrow> gtest_src_folder a = None \<or> gtest_src_pattern a = None \<Longrightarrow>
   main ev a = \<lparr>status = Exited 1, stdout = [GtestOptionsRequired], output_file = Untouched\<rparr>
   \<and> exit_code (status (main ev a)) \<noteq> 0"
  by (auto simp: main_def exit_code_def split: option.splits)

theorem main_gtest_options_required_witness:
  "main \<lparr>walk = (\<lambda>d. [(d, [''report.xml''])]), parse_xml = (\<lambda>p. Inl XMLSyntaxError),
         read_lines = (\<lambda>p. Inr []), re_compile = (\<lambda>p. Inr (\<lambda>n. True))\<rparr>
        \<lparr>report_type = gtest, search_folder = ''reports'', report_pattern = ''xml'',
         output_path = ''out.xml'', gtest_src_folder = None, gtest_src_pattern = Some ''cpp''\<rparr>
     = \<lparr>status = Exited 1, stdout = [GtestOptionsRequired], output_file = Untouched\<rparr>"
  using main_gtest_options_required
    [of "\<lparr>report_type = gtest, search_folder = ''reports'', report_pattern = ''xml'',
         output_path = ''out.xml'', gtest_src_folder = None, gtest_src_pattern = Some ''cpp''\<rparr>"
        "\<lparr>walk = (\<lambda>d. [(d, [''report.xml''])]), parse_xml = (\<lambda>p. Inl XMLSyntaxError),
         read_lines = (\<lambda>p. Inr []), re_compile = (\<lambda>p. Inr (\<lambda>n. True))\<rparr>"]
  by simp

subsection \<open>Dictionaries and loops\<close>

lemma map_fst_map_entry: "map fst (AList.map_entry k f xs) = map fst xs"
  by (induction xs) auto

lemma map_of_ensure_group:
  "map_of (ensure_group k d) k' =
     (if k' = k \<and> map_of d k = None then Some (SonarTestExcution_init k) else map_of d k')"
  by (auto simp: ensure_group_def map_add_def split: option.splits)

lemma keys_ensure_group: "fst ` set (ensure_group k d) = insert k (fst ` set d)"
  by (auto simp: ensure_group_def map_of_eq_None_iff image_iff)

lemma distinct_ensure_group:
  "distinct (map fst d) \<Longrightarrow> distinct (map fst (ensure_group k d))"
  by (auto simp: ensure_group_def map_of_eq_None_iff)

lemma keyed_ensure_group: "keyed d \<Longrightarrow> keyed (ensure_group k d)"
  by (auto simp: ensure_group_def keyed_def SonarTestExcution_init_def)

lemma keyed_map_entry_add:
  "keyed d \<Longrightarrow> keyed (AList.map_entry k (add_test_cases tcs) d)"
  by (induction d) (auto simp: keyed_def add_test_cases_def)

lemma add_test_case_eq: "add_test_case tc = add_test_cases [tc]"
  by (auto simp: add_test_case_def add_test_cases_def fun_eq_iff)

lemma cases_of_add:
  "cases_of (AList.map_entry k (add_test_cases tcs) (ensure_group k d)) k' =
     cases_of d k' @ (if k' = k then tcs else [])"
  by (auto simp: cases_of_def map_of_map_entry map_of_ensure_group add_test_cases_def
      SonarTestExcution_init_def split: option.splits)

lemma keys_add:
  "fst ` set (AList.map_entry k f (ensure_group k d)) = insert k (fst ` set d)"
  by (simp add: dom_map_entry keys_ensure_group)

lemma distinct_add:
  "distinct (map fst d) \<Longrightarrow> distinct (map fst (AList.map_entry k f (ensure_group k d)))"
  by (simp add: distinct_map_entry distinct_ensure_group)

lemma keyed_add:
  "keyed d \<Longrightarrow> keyed (AList.map_entry k (add_test_cases tcs) (ensure_group k d))"
  by (simp add: keyed_map_entry_add keyed_ensure_group)

lemma for_each_append:
  "for_each f (xs @ ys) s =
     (case for_each f xs s of (s', Some e) \<Rightarrow> (s', Some e) | (s', None) \<Rightarrow> for_each f ys s')"
  by (induction xs arbitrary: s) (auto split: prod.splits option.splits)

lemma for_each_nested:
  "for_each (\<lambda>x. for_each (g x) (h x)) xs s =
   for_each (\<lambda>(x, y). g x y) (concat (map (\<lambda>x. map (Pair x) (h x)) xs)) s"
proof (induction xs arbitrary: s)
  case Nil
  then show ?case by simp
next
  case (Cons x xs)
  have inner: "for_each (\<lambda>(x, y). g x y) (map (Pair x) ys) t = for_each (g x) ys t" for ys t
    by (induction ys arbitrary: t) (auto split: prod.splits option.splits)
  show ?case
    by (simp add: for_each_append inner Cons.IH split: prod.splits option.splits)
qed

lemma junit_case_step_Inr:
  "junit_test_case tc = Inr t \<Longrightarrow>
   junit_case_step tc d0 =
     (AList.map_entry (node_get tc ''file'') (add_test_cases [t]) (ensure_group (node_get tc ''file'') d0), None)"
  by (simp add: junit_case_step_def Let_def add_test_case_eq)

lemma junit_case_step_Inl:
  "junit_test_case tc = Inl e \<Longrightarrow>
   junit_case_step tc d0 = (ensure_group (node_get tc ''file'') d0, Some e)"
  by (simp add: junit_case_step_def Let_def)

lemma junit_loop:
  "for_each junit_case_step tcs d0 = (d, None) \<Longrightarrow>
   map Inr (cases_of d k) =
     map Inr (cases_of d0 k) @ map junit_test_case (filter (\<lambda>tc. node_get tc ''file'' = k) tcs)"
proof (induction tcs arbitrary: d0)
  case Nil
  then show ?case by simp
next
  case (Cons tc tcs)
  from Cons.prems obtain t where t: "junit_test_case tc = Inr t"
    by (cases "junit_test_case tc") (auto simp: junit_case_step_Inl)
  let ?d1 = "AList.map_entry (node_get tc ''file'') (add_test_cases [t]) (ensure_group (node_get tc ''file'') d0)"
  from Cons.prems t have "for_each junit_case_step tcs ?d1 = (d, None)"
    by (simp add: junit_case_step_Inr)
  from Cons.IH [OF this] show ?case
    by (auto simp: cases_of_add t)
qed

lemma junit_loop_inv:
  "for_each junit_case_step tcs d0 = (d, x) \<Longrightarrow>
   (distinct (map fst d0) \<longrightarrow> distinct (map fst d)) \<and> (keyed d0 \<longrightarrow> keyed d)"
proof (induction tcs arbitrary: d0)
  case Nil
  then show ?case by simp
next
  case (Cons tc tcs)
  show ?case
  proof (cases "junit_test_case tc")
    case (Inl e)
    with Cons.prems have "d = ensure_group (node_get tc ''file'') d0"
      by (simp add: junit_case_step_Inl)
    then show ?thesis by (simp add: distinct_ensure_group keyed_ensure_group)
  next
    case (Inr t)
    let ?d1 = "AList.map_entry (node_get tc ''file'') (add_test_cases [t]) (ensure_group (node_get tc ''file'') d0)"
    from Cons.prems Inr have "for_each junit_case_step tcs ?d1 = (d, x)"
      by (simp add: junit_case_step_Inr)
    from Cons.IH [OF this] show ?thesis
      by (simp add: distinct_add keyed_add)
  qed
qed

lemma junit_loop_keys:
  "for_each junit_case_step tcs d0 = (d, None) \<Longrightarrow>
   fst ` set d = fst ` set d0 \<union> (\<lambda>tc. node_get tc ''file'') ` set tcs"
proof (induction tcs arbitrary: d0)
  case Nil
  then show ?case by simp
next
  case (Cons tc tcs)
  from Cons.prems obtain t where t: "junit_test_case tc = Inr t"
    by (cases "junit_test_case tc") (auto simp: junit_case_step_Inl)
  let ?d1 = "AList.map_entry (node_get tc ''file'') (add_test_cases [t]) (ensure_group (node_get tc ''file'') d0)"
  from Cons.prems t have "for_each junit_case_step tcs ?d1 = (d, None)"
    by (simp add: junit_case_step_Inr)
  from Cons.IH [OF this] show ?case
    by (simp add: keys_add)
qed

subsection \<open>The JUnit parser\<close>

lemma cases_of_ensure_group: "cases_of (ensure_group k d) k' = cases_of d k'"
  by (auto simp: cases_of_def map_of_ensure_group SonarTestExcution_init_def)

lemma junit_loop_prefix:
  "for_each junit_case_step tcs d0 = (d, x) \<Longrightarrow>
   \<exists>n. n \<le> length tcs \<and> (x = None \<longrightarrow> n = length tcs)
     \<and> (\<forall>k. map Inr (cases_of d k) =
            map Inr (cases_of d0 k) @
            map junit_test_case (filter (\<lambda>c. node_get c ''file'' = k) (take n tcs)))"
proof (induction tcs arbitrary: d0)
  case Nil
  then show ?case by simp
next
  case (Cons tc tcs)
  show ?case
  proof (cases "junit_test_case tc")
    case (Inl e)
    with Cons.prems have "d = ensure_group (node_get tc ''file'') d0" and "x = Some e"
      by (simp_all add: junit_case_step_Inl)
    then have "0 \<le> length (tc # tcs) \<and> (x = None \<longrightarrow> 0 = length (tc # tcs))
       \<and> (\<forall>k. map Inr (cases_of d k) =
            map Inr (cases_of d0 k) @
            map junit_test_case (filter (\<lambda>c. node_get c ''file'' = k) (take 0 (tc # tcs))))"
      by (simp add: cases_of_ensure_group)
    then show ?thesis by blast
  next
    case (Inr t)
    let ?d1 = "AList.map_entry (node_get tc ''file'') (add_test_cases [t]) (ensure_group (node_get tc ''file'') d0)"
    from Cons.prems Inr have "for_each junit_case_step tcs ?d1 = (d, x)"
      by (simp add: junit_case_step_Inr)
    from Cons.IH [OF this] obtain n where n: "n \<le> length tcs" "x = None \<longrightarrow> n = length tcs"
      "\<forall>k. map Inr (cases_of d k) =
            map Inr (cases_of ?d1 k) @
            map junit_test_case (filter (\<lambda>c. node_get c ''file'' = k) (take n tcs))"
      by blast
    have "Suc n \<le> length (tc # tcs) \<and> (x = None \<longrightarrow> Suc n = length (tc # tcs))
       \<and> (\<forall>k. map Inr (cases_of d k) =
            map Inr (cases_of d0 k) @
            map junit_test_case (filter (\<lambda>c. node_get c ''file'' = k) (take (Suc n) (tc # tcs))))"
      using n by (simp add: cases_of_add Inr)
    then show ?thesis by blast
  qed
qed

lemma junit_loop_keys_subset:
  "for_each junit_case_step tcs d0 = (d, x) \<Longrightarrow>
   fst ` set d \<subseteq> fst ` set d0 \<union> (\<lambda>c. node_get c ''file'') ` set tcs"
proof (induction tcs arbitrary: d0)
  case Nil
  then show ?case by simp
next
  case (Cons tc tcs)
  show ?case
  proof (cases "junit_test_case tc")
    case (Inl e)
    with Cons.prems have "d = ensure_group (node_get tc ''file'') d0"
      by (simp add: junit_case_step_Inl)
    then show ?thesis by (auto simp: keys_ensure_group)
  next
    case (Inr t)
    let ?d1 = "AList.map_entry (node_get tc ''file'') (add_test_cases [t]) (ensure_group (node_get tc ''file'') d0)"
    from Cons.prems Inr have "for_each junit_case_step tcs ?d1 = (d, x)"
      by (simp add: junit_case_step_Inr)
    from Cons.IH [OF this] show ?thesis
      by (auto simp: keys_add)
  qed
qed

lemma xpath_root_child_eq:
  "xpath_root_child r c tree =
     (if tag_of tree = Some r then filter (\<lambda>k. tag_of k = Some c) (children_of tree) else [])"
  by (simp add: xpath_root_child_def xpath_child_def)

lemma JUnit_doParse_tree_sound:
  assumes "JUnit_doParse_tree tree = (d, x)" and "(k, g) \<in> set d"
  shows "(\<exists>c \<in> set (children_of tree).
            tag_of tree = Some ''testsuite'' \<and> tag_of c = Some ''testcase'' \<and> node_get c ''file'' = k)
    \<and> (\<forall>t \<in> set (test_cases g). \<exists>c \<in> set (children_of tree).
            tag_of tree = Some ''testsuite'' \<and> tag_of c = Some ''testcase'' \<and> node_get c ''file'' = k
            \<and> junit_test_case c = Inr t)"
proof -
  let ?sel = "xpath_root_child ''testsuite'' ''testcase'' tree"
  from assms(1) have loop: "for_each junit_case_step ?sel [] = (d, x)"
    by (simp add: JUnit_doParse_tree_def)
  have sel: "c \<in> set (children_of tree) \<and> tag_of tree = Some ''testsuite'' \<and> tag_of c = Some ''testcase''"
    if "c \<in> set ?sel" for c
    using that by (auto simp: xpath_root_child_eq split: if_splits)
  from junit_loop_keys_subset [OF loop] assms(2) obtain c0 where "c0 \<in> set ?sel" "node_get c0 ''file'' = k"
    by force
  with sel have 1: "\<exists>c \<in> set (children_of tree).
      tag_of tree = Some ''testsuite'' \<and> tag_of c = Some ''testcase'' \<and> node_get c ''file'' = k"
    by blast
  from junit_loop_inv [OF loop] have "distinct (map fst d)" by simp
  with assms(2) have cases: "cases_of d k = test_cases g"
    by (simp add: cases_of_def)
  from junit_loop_prefix [OF loop] obtain n where
    n: "map Inr (cases_of d k) = map junit_test_case (filter (\<lambda>c. node_get c ''file'' = k) (take n ?sel))"
    by (auto simp: cases_of_def)
  have 2: "\<exists>c \<in> set (children_of tree).
      tag_of tree = Some ''testsuite'' \<and> tag_of c = Some ''testcase'' \<and> node_get c ''file'' = k
      \<and> junit_test_case c = Inr t" if "t \<in> set (test_cases g)" for t
  proof -
    from that cases have "(Inr t :: exn + TestCase) \<in> set (map Inr (cases_of d k))" by simp
    then have "Inr t \<in> set (map junit_test_case (filter (\<lambda>c. node_get c ''file'' = k) (take n ?sel)))"
      by (simp only: n)
    then obtain c where c: "c \<in> set (take n ?sel)" "node_get c ''file'' = k" "junit_test_case c = Inr t"
      by auto
    from c(1) have "c \<in> set ?sel" by (rule in_set_takeD)
    with sel c show ?thesis by blast
  qed
  from 1 2 show ?thesis by blast
qed

text \<open>
  C10: the JUnit parser selects the \<^verbatim>\<open>testcase\<close> children of a root element named
  \<^verbatim>\<open>testsuite\<close> and nothing else. A report whose root element has another name, such as
  a \<^verbatim>\<open>testsuites\<close> wrapper, gives an empty dictionary and prints nothing. For any report,
  every group and every test case of the dictionary comes from a \<^verbatim>\<open>testcase\<close> element that
  is a child of a root named \<^verbatim>\<open>testsuite\<close>, and the groups hold exactly the entries of
  the first \<open>n\<close> such children, all of them when no exception ends the loop: elements
  with another tag and \<^verbatim>\<open>testcase\<close> elements nested deeper contribute nothing. In a run
  such a report file adds no group and no diagnostic before the loop over the
  dictionary raises.
\<close>

theorem JUnit_doParse_selects_testsuite_testcase:
  "(parse_xml ev p = Inr tree \<and> tag_of tree \<noteq> Some ''testsuite'' \<longrightarrow> JUnit_doParse ev p = ([], []))
   \<and> (JUnit_doParse_tree tree = (d, x) \<longrightarrow>
        (\<forall>(k, g) \<in> set d.
           (\<exists>c \<in> set (children_of tree).
              tag_of tree = Some ''testsuite'' \<and> tag_of c = Some ''testcase'' \<and> node_get c ''file'' = k)
           \<and> (\<forall>t \<in> set (test_cases g). \<exists>c \<in> set (children_of tree).
                 tag_of tree = Some ''testsuite'' \<and> tag_of c = Some ''testcase''
                 \<and> node_get c ''file'' = k \<and> junit_test_case c = Inr t))
        \<and> (\<exists>n. n \<le> length (filter (\<lambda>c. tag_of c = Some ''testcase'') (children_of tree))
              \<and> (x = None \<longrightarrow> n = length (filter (\<lambda>c. tag_of c = Some ''testcase'') (children_of tree)))
              \<and> (\<forall>k. map Inr (cases_of d k) =
                     (if tag_of tree = Some ''testsuite''
                      then map junit_test_case
                             (filter (\<lambda>c. node_get c ''file'' = k)
                                (take n (filter (\<lambda>c. tag_of c = Some ''testcase'') (children_of tree))))
                      else []))))
   \<and> (regexp f \<and> parse_xml ev (path_join dirName f) = Inr tree \<and> tag_of tree \<noteq> Some ''testsuite'' \<longrightarrow>
        junit_file_step ev regexp dirName f (acc, out) = ((acc, out), Some AttributeError))"
proof (intro conjI impI)
  assume "parse_xml ev p = Inr tree \<and> tag_of tree \<noteq> Some ''testsuite''"
  then show "JUnit_doParse ev p = ([], [])"
    by (simp add: JUnit_doParse_def JUnit_doParse_tree_def xpath_root_child_def)
next
  assume r: "JUnit_doParse_tree tree = (d, x)"
  show "\<forall>(k, g) \<in> set d.
           (\<exists>c \<in> set (children_of tree).
              tag_of tree = Some ''testsuite'' \<and> tag_of c = Some ''testcase'' \<and> node_get c ''file'' = k)
           \<and> (\<forall>t \<in> set (test_cases g). \<exists>c \<in> set (children_of tree).
                 tag_of tree = Some ''testsuite'' \<and> tag_of c = Some ''testcase''
                 \<and> node_get c ''file'' = k \<and> junit_test_case c = Inr t)"
  proof (intro ballI)
    fix kg
    assume mem: "kg \<in> set d"
    obtain k g where kg: "kg = (k, g)" by (cases kg)
    from JUnit_doParse_tree_sound [OF r, of k g] mem kg
    show "case kg of (k, g) \<Rightarrow>
           (\<exists>c \<in> set (children_of tree).
              tag_of tree = Some ''testsuite'' \<and> tag_of c = Some ''testcase'' \<and> node_get c ''file'' = k)
           \<and> (\<forall>t \<in> set (test_cases g). \<exists>c \<in> set (children_of tree).
                 tag_of tree = Some ''testsuite'' \<and> tag_of c = Some ''testcase''
                 \<and> node_get c ''file'' = k \<and> junit_test_case c = Inr t)"
      by simp
  qed
next
  assume r: "JUnit_doParse_tree tree = (d, x)"
  let ?tcs = "filter (\<lambda>c. tag_of c = Some ''testcase'') (children_of tree)"
  show "\<exists>n. n \<le> length ?tcs \<and> (x = None \<longrightarrow> n = length ?tcs)
          \<and> (\<forall>k. map Inr (cases_of d k) =
                 (if tag_of tree = Some ''testsuite''
                  then map junit_test_case (filter (\<lambda>c. node_get c ''file'' = k) (take n ?tcs))
                  else []))"
  proof (cases "tag_of tree = Some ''testsuite''")
    case True
    with r have "for_each junit_case_step ?tcs [] = (d, x)"
      by (simp add: JUnit_doParse_tree_def xpath_root_child_eq)
    from junit_loop_prefix [OF this] True show ?thesis
      by (simp add: cases_of_def)
  next
    case False
    with r have "d = []" "x = None"
      by (simp_all add: JUnit_doParse_tree_def xpath_root_child_eq)
    with False have "length ?tcs \<le> length ?tcs \<and> (x = None \<longrightarrow> length ?tcs = length ?tcs)
          \<and> (\<forall>k. map Inr (cases_of d k) =
                 (if tag_of tree = Some ''testsuite''
                  then map junit_test_case (filter (\<lambda>c. node_get c ''file'' = k) (take (length ?tcs) ?tcs))
                  else []))"
      by (simp add: cases_of_def)
    then show ?thesis by blast
  qed
next
  assume "regexp f \<and> parse_xml ev (path_join dirName f) = Inr tree \<and> tag_of tree \<noteq> Some ''testsuite''"
  then show "junit_file_step ev regexp dirName f (acc, out) = ((acc, out), Some AttributeError)"
    by (simp add: junit_file_step_def dict_iteritems_def JUnit_doParse_def JUnit_doParse_tree_def
        xpath_root_child_def)
qed

theorem JUnit_doParse_selects_testsuite_testcase_witness:
  "JUnit_doParse (scenario_env junit_wrapper_report) ''reports/good.xml'' = ([], [])
   \<and> junit_file_step (scenario_env junit_wrapper_report) (\<lambda>n. True) ''reports'' ''good.xml'' ([], [])
     = (([], []), Some AttributeError)
   \<and> JUnit_doParse_tree junit_nested_report
     = ([(Some ''foo.cpp'',
          \<lparr>file_path = Some ''foo.cpp'',
           test_cases = [\<lparr>name = ''Foo.t1'', duration = ''125'', msg = None\<rparr>]\<rparr>)], None)
   \<and> map Inr (cases_of [(Some ''foo.cpp'',
          \<lparr>file_path = Some ''foo.cpp'',
           test_cases = [\<lparr>name = ''Foo.t1'', duration = ''125'', msg = None\<rparr>]\<rparr>)] (Some ''foo.cpp''))
     = map junit_test_case
         (filter (\<lambda>c. node_get c ''file'' = Some ''foo.cpp'')
            (take 1 (filter (\<lambda>c. tag_of c = Some ''testcase'') (children_of junit_nested_report))))"
proof -
  let ?E = "scenario_env junit_wrapper_report"
  let ?D = "[(Some ''foo.cpp'',
          \<lparr>file_path = Some ''foo.cpp'',
           test_cases = [\<lparr>name = ''Foo.t1'', duration = ''125'', msg = None\<rparr>]\<rparr>)]"
  have w1: "parse_xml ?E ''reports/good.xml'' = Inr junit_wrapper_report
      \<and> tag_of junit_wrapper_report \<noteq> Some ''testsuite''"
    by (simp add: scenario_env_def junit_wrapper_report_def tag_of_def)
  have c1: "JUnit_doParse ?E ''reports/good.xml'' = ([], [])"
    using JUnit_doParse_selects_testsuite_testcase
      [where ev = ?E and p = "''reports/good.xml''" and tree = junit_wrapper_report, THEN conjunct1] w1
    by (rule mp)
  have w3: "(\<lambda>n. True) ''good.xml'' \<and> parse_xml ?E (path_join ''reports'' ''good.xml'') = Inr junit_wrapper_report
      \<and> tag_of junit_wrapper_report \<noteq> Some ''testsuite''"
    by (simp add: path_join_def scenario_env_def junit_wrapper_report_def tag_of_def)
  have c3: "junit_file_step ?E (\<lambda>n. True) ''reports'' ''good.xml'' ([], []) = (([], []), Some AttributeError)"
    using JUnit_doParse_selects_testsuite_testcase
      [where ev = ?E and regexp = "\<lambda>n. True" and f = "''good.xml''" and dirName = "''reports''"
         and tree = junit_wrapper_report and acc = "[]" and out = "[]",
       THEN conjunct2, THEN conjunct2] w3
    by (rule mp)
  have h: "JUnit_doParse_tree junit_nested_report = (?D, None)"
    by code_simp
  have len: "length (filter (\<lambda>c. tag_of c = Some ''testcase'') (children_of junit_nested_report)) = 1"
    and tag: "tag_of junit_nested_report = Some ''testsuite''"
    by (simp_all add: junit_nested_report_def children_of_def tag_of_def)
  from JUnit_doParse_selects_testsuite_testcase
      [where tree = junit_nested_report and d = ?D and x = None, THEN conjunct2, THEN conjunct1] h
  obtain n where
    n: "n = length (filter (\<lambda>c. tag_of c = Some ''testcase'') (children_of junit_nested_report))"
    and eq: "\<forall>k. map Inr (cases_of ?D k) =
       (if tag_of junit_nested_report = Some ''testsuite''
        then map junit_test_case
               (filter (\<lambda>c. node_get c ''file'' = k)
                  (take n (filter (\<lambda>c. tag_of c = Some ''testcase'') (children_of junit_nested_report))))
        else [])"
    by blast
  from n len have n1: "n = 1" by simp
  from eq [rule_format, of "Some ''foo.cpp''"] have c4:
    "map Inr (cases_of ?D (Some ''foo.cpp'')) =
       map junit_test_case
         (filter (\<lambda>c. node_get c ''file'' = Some ''foo.cpp'')
            (take 1 (filter (\<lambda>c. tag_of c = Some ''testcase'') (children_of junit_nested_report))))"
    unfolding n1 tag by simp
  from c1 c3 h c4 show ?thesis
    by (intro conjI)
qed

lemma serialize_executions_keyed:
  "keyed d \<Longrightarrow> None \<notin> fst ` set d \<Longrightarrow> serialize_executions (map snd d) = Inr (map file_element d)"
proof (induction d)
  case Nil
  then show ?case by simp
next
  case (Cons kg d)
  obtain k g where kg: "kg = (k, g)" by (cases kg)
  from Cons.prems kg obtain p where p: "k = Some p" "file_path g = Some p"
    by (cases k) (auto simp: keyed_def)
  from Cons.prems have "keyed d" "None \<notin> fst ` set d"
    by (auto simp: keyed_def)
  from Cons.IH [OF this] show ?case
    by (simp add: kg p serialize_execution_def file_element_def)
qed

lemma serialize_keyed:
  "keyed d \<Longrightarrow> None \<notin> fst ` set d \<Longrightarrow>
   serialize (map snd d) = Inr (Element ''testExecutions'' [(''version'', ''1'')] None (map file_element d))"
  by (simp add: serialize_def serialize_executions_keyed)

lemma serialize_test_case_no_msg:
  "msg t = None \<Longrightarrow>
   serialize_test_case t = Element ''testCase'' [(''name'', name t), (''duration'', duration t)] None []"
  by (simp add: serialize_test_case_def)

lemma trunc_rat_nonneg: "0 \<le> q \<Longrightarrow> trunc_rat q = \<lfloor>q\<rfloor>"
  by (simp add: trunc_rat_def)

lemma duration_of_Inr:
  "duration_of v = Inr dur \<Longrightarrow>
   \<exists>x q. py_float v = Inr x \<and> times_1000 x = Finite q \<and> dur = str_int (trunc_rat q)"
  by (auto simp: duration_of_def py_int_def split: sum.splits pyfloat.splits)

lemma junit_test_case_Inr:
  "junit_test_case tc = Inr t \<Longrightarrow>
   \<exists>x q. py_float (node_get tc ''time'') = Inr x \<and> times_1000 x = Finite q \<and>
     t = \<lparr>name = format_dotted (node_get tc ''classname'') (node_get tc ''name''),
          duration = str_int (trunc_rat q), msg = doParseMsg tc\<rparr>"
  using duration_of_Inr [of "node_get tc ''time''"]
  by (auto simp: junit_test_case_def split: sum.splits)

lemma junit_loop_valid:
  "for_each junit_case_step tcs d0 = (d, None) \<Longrightarrow> tc \<in> set tcs \<Longrightarrow> \<exists>t. junit_test_case tc = Inr t"
proof (induction tcs arbitrary: d0)
  case Nil
  then show ?case by simp
next
  case (Cons a tcs)
  from Cons.prems(1) obtain t where t: "junit_test_case a = Inr t"
    by (cases "junit_test_case a") (auto simp: junit_case_step_Inl)
  with Cons.prems(1) have rest: "for_each junit_case_step tcs
      (AList.map_entry (node_get a ''file'') (add_test_cases [t]) (ensure_group (node_get a ''file'') d0)) = (d, None)"
    by (simp add: junit_case_step_Inr)
  show ?case
  proof (cases "tc = a")
    case True
    with t show ?thesis by blast
  next
    case False
    with Cons.prems(2) have "tc \<in> set tcs" by simp
    from Cons.IH [OF rest this] show ?thesis .
  qed
qed

lemma keyed_Nil: "keyed []"
  by (simp add: keyed_def)

lemma cases_of_Nil: "cases_of [] k = []"
  by (simp add: cases_of_def)

text \<open>
  C5, as the specification states it, fails: for \<^verbatim>\<open>time="1.001"\<close> the duration written is
  \<^verbatim>\<open>1000\<close>, while \<^verbatim>\<open>floor(1.001 * 1000)\<close> is \<^verbatim>\<open>1001\<close>. The product is computed in binary
  floating point, where it is \<^verbatim>\<open>1000.9999999999999\<close>.
\<close>

theorem junit_duration_floor_counterexample:
  "JUnit_doParse_tree (Element ''testsuite'' [] None
       [Element ''testcase''
          [(''name'', ''t1''), (''classname'', ''Foo''), (''file'', ''foo.cpp''), (''time'', ''1.001'')] None []])
     = ([(Some ''foo.cpp'',
          \<lparr>file_path = Some ''foo.cpp'',
           test_cases = [\<lparr>name = ''Foo.t1'', duration = ''1000'', msg = None\<rparr>]\<rparr>)], None)
   \<and> spec_duration ''1.001'' = Some ''1001''"
  by code_simp

text \<open>
  C5, amended: when \<^verbatim>\<open>JUnitTestReportParser.doParse\<close> reads a report without an exception,
  the dictionary has distinct keys, one group for every \<^verbatim>\<open>file\<close> value that occurs, and the
  group of a file holds exactly the entries of the \<^verbatim>\<open>testcase\<close> elements with that \<^verbatim>\<open>file\<close>
  value, one per element, in document order. The entry of an element is named
  \<^verbatim>\<open>classname.name\<close>; its duration is the decimal form of \<^verbatim>\<open>float(time) * 1000\<close>, computed
  in binary64 arithmetic and truncated toward zero (the floor of that product when it is
  not negative); it has no message when no child is a failure, error or skipped element.
  The serializer writes one \<^verbatim>\<open>file\<close> element per group and one \<^verbatim>\<open>testCase\<close> element per
  entry, without a child when the entry has no message.
\<close>

theorem JUnit_doParse_tree_entries:
  assumes "JUnit_doParse_tree tree = (d, None)"
  shows "distinct (map fst d) \<and> keyed d
    \<and> fst ` set d = (\<lambda>tc. node_get tc ''file'') ` set (xpath_root_child ''testsuite'' ''testcase'' tree)
    \<and> (\<forall>f. map Inr (cases_of d f) =
            map junit_test_case
              (filter (\<lambda>tc. node_get tc ''file'' = f) (xpath_root_child ''testsuite'' ''testcase'' tree)))
    \<and> (\<forall>tc \<in> set (xpath_root_child ''testsuite'' ''testcase'' tree).
          \<exists>x q. py_float (node_get tc ''time'') = Inr x \<and> times_1000 x = Finite q
            \<and> junit_test_case tc =
                Inr \<lparr>name = format_dotted (node_get tc ''classname'') (node_get tc ''name''),
                     duration = str_int (trunc_rat q), msg = doParseMsg tc\<rparr>
            \<and> (0 \<le> q \<longrightarrow> trunc_rat q = \<lfloor>q\<rfloor>)
            \<and> ((\<forall>c \<in> set (children_of tc). \<not> is_status_child c) \<longrightarrow> doParseMsg tc = None))
    \<and> (None \<notin> fst ` set d \<longrightarrow>
          serialize (map snd d) =
            Inr (Element ''testExecutions'' [(''version'', ''1'')] None (map file_element d)))
    \<and> (\<forall>t. msg t = None \<longrightarrow>
          serialize_test_case t =
            Element ''testCase'' [(''name'', name t), (''duration'', duration t)] None [])"
proof -
  let ?tcs = "xpath_root_child ''testsuite'' ''testcase'' tree"
  from assms have loop: "for_each junit_case_step ?tcs [] = (d, None)"
    by (simp add: JUnit_doParse_tree_def)
  have inv: "distinct (map fst d)" "keyed d"
    using junit_loop_inv [OF loop] by (simp_all add: keyed_Nil)
  have keys: "fst ` set d = (\<lambda>tc. node_get tc ''file'') ` set ?tcs"
    using junit_loop_keys [OF loop] by simp
  have groups: "\<forall>f. map Inr (cases_of d f) =
      map junit_test_case (filter (\<lambda>tc. node_get tc ''file'' = f) ?tcs)"
    using junit_loop [OF loop] by (simp add: cases_of_Nil)
  have entry: "\<exists>x q. py_float (node_get tc ''time'') = Inr x \<and> times_1000 x = Finite q
            \<and> junit_test_case tc =
                Inr \<lparr>name = format_dotted (node_get tc ''classname'') (node_get tc ''name''),
                     duration = str_int (trunc_rat q), msg = doParseMsg tc\<rparr>
            \<and> (0 \<le> q \<longrightarrow> trunc_rat q = \<lfloor>q\<rfloor>)
            \<and> ((\<forall>c \<in> set (children_of tc). \<not> is_status_child c) \<longrightarrow> doParseMsg tc = None)"
    if "tc \<in> set ?tcs" for tc
  proof -
    from junit_loop_valid [OF loop that] obtain t where t: "junit_test_case tc = Inr t" ..
    from junit_test_case_Inr [OF t] obtain x q where
      "py_float (node_get tc ''time'') = Inr x" "times_1000 x = Finite q"
      "t = \<lparr>name = format_dotted (node_get tc ''classname'') (node_get tc ''name''),
          duration = str_int (trunc_rat q), msg = doParseMsg tc\<rparr>"
      by blast
    with t show ?thesis
      using trunc_rat_nonneg [of q] doParseMsg_no_status_child [of tc] by blast
  qed
  have ser: "None \<notin> fst ` set d \<longrightarrow>
      serialize (map snd d) =
        Inr (Element ''testExecutions'' [(''version'', ''1'')] None (map file_element d))"
    using serialize_keyed [OF inv(2)] by blast
  from inv keys groups entry ser serialize_test_case_no_msg show ?thesis
    by blast
qed

theorem JUnit_doParse_tree_entries_witness:
  "JUnit_doParse_tree junit_good_report
     = ([(Some ''foo.cpp'',
          \<lparr>file_path = Some ''foo.cpp'',
           test_cases = [\<lparr>name = ''Foo.t1'', duration = ''125'', msg = None\<rparr>]\<rparr>)], None)
   \<and> serialize [\<lparr>file_path = Some ''foo.cpp'',
                   test_cases = [\<lparr>name = ''Foo.t1'', duration = ''125'', msg = None\<rparr>]\<rparr>]
     = Inr (Element ''testExecutions'' [(''version'', ''1'')] None
         [Element ''file'' [(''path'', ''foo.cpp'')] None
           [Element ''testCase'' [(''name'', ''Foo.t1''), (''duration'', ''125'')] None []]])"
proof -
  have h: "JUnit_doParse_tree junit_good_report
     = ([(Some ''foo.cpp'',
          \<lparr>file_path = Some ''foo.cpp'',
           test_cases = [\<lparr>name = ''Foo.t1'', duration = ''125'', msg = None\<rparr>]\<rparr>)], None)"
    by code_simp
  from JUnit_doParse_tree_entries [OF h] h show ?thesis
    by (simp add: file_element_def serialize_test_case_def)
qed

subsection \<open>Aggregation\<close>

lemma for_each_invariant:
  assumes "\<And>x s s' e. x \<in> set xs \<Longrightarrow> P s \<Longrightarrow> f x s = (s', e) \<Longrightarrow> P s'"
    and "P s" and "for_each f xs s = (s', e)"
  shows "P s'"
  using assms
proof (induction xs arbitrary: s)
  case Nil
  then show ?case by simp
next
  case (Cons x xs)
  obtain s1 e1 where step: "f x s = (s1, e1)" by (cases "f x s")
  have P1: "P s1" using Cons.prems(1) [of x s s1 e1] Cons.prems(2) step by simp
  show ?case
  proof (cases e1)
    case None
    with step Cons.prems(3) have "for_each f xs s1 = (s', e)" by simp
    have "\<And>y s s' e. y \<in> set xs \<Longrightarrow> P s \<Longrightarrow> f y s = (s', e) \<Longrightarrow> P s'"
      using Cons.prems(1) by (meson list.set_intros(2))
    from Cons.IH [OF this P1 \<open>for_each f xs s1 = (s', e)\<close>] show ?thesis .
  next
    case (Some a)
    with step Cons.prems(3) P1 show ?thesis by simp
  qed
qed

lemma merge_items_Cons:
  "merge_items ((k, v) # items) acc =
     merge_items items (AList.map_entry k (add_test_cases (test_cases v)) (ensure_group k acc))"
  by (simp add: merge_items_def)

lemma merge_items_cases:
  "cases_of (merge_items items acc) k =
     cases_of acc k @ concat (map (\<lambda>kv. test_cases (snd kv)) (filter (\<lambda>kv. fst kv = k) items))"
proof (induction items arbitrary: acc)
  case Nil
  then show ?case by (simp add: merge_items_def)
next
  case (Cons kv items)
  obtain k' v where kv: "kv = (k', v)" by (cases kv)
  show ?case
    by (simp add: kv merge_items_Cons Cons.IH cases_of_add)
qed

lemma merge_items_keys:
  "fst ` set (merge_items items acc) = fst ` set acc \<union> fst ` set items"
proof (induction items arbitrary: acc)
  case Nil
  then show ?case by (simp add: merge_items_def)
next
  case (Cons kv items)
  obtain k' v where kv: "kv = (k', v)" by (cases kv)
  show ?case
    by (simp add: kv merge_items_Cons Cons.IH keys_add)
qed

lemma merge_items_inv:
  "(distinct (map fst acc) \<longrightarrow> distinct (map fst (merge_items items acc)))
   \<and> (keyed acc \<longrightarrow> keyed (merge_items items acc))"
proof (induction items arbitrary: acc)
  case Nil
  then show ?case by (simp add: merge_items_def)
next
  case (Cons kv items)
  obtain k' v where kv: "kv = (k', v)" by (cases kv)
  show ?case
    using Cons.IH [of "AList.map_entry k' (add_test_cases (test_cases v)) (ensure_group k' acc)"]
    by (simp add: kv merge_items_Cons distinct_add keyed_add)
qed

lemma cases_of_distinct:
  "distinct (map fst items) \<Longrightarrow>
   concat (map (\<lambda>kv. test_cases (snd kv)) (filter (\<lambda>kv. fst kv = k) items)) = cases_of items k"
proof (induction items)
  case Nil
  then show ?case by (simp add: cases_of_def)
next
  case (Cons kv items)
  obtain k' v where kv: "kv = (k', v)" by (cases kv)
  show ?case
  proof (cases "k' = k")
    case True
    with Cons.prems kv have "filter (\<lambda>kv. fst kv = k) items = []"
      by (auto simp: filter_empty_conv image_iff)
    with True kv show ?thesis by (simp add: cases_of_def)
  next
    case False
    with Cons kv show ?thesis by (simp add: cases_of_def)
  qed
qed

lemma cases_of_member:
  "distinct (map fst d) \<Longrightarrow> (k, g) \<in> set d \<Longrightarrow> cases_of d k = test_cases g"
  by (simp add: cases_of_def)

lemma keyed_file_paths: "keyed d \<Longrightarrow> map file_path (map snd d) = map fst d"
  by (induction d) (auto simp: keyed_def)

lemma gtest_case_step_unknown:
  "\<not> known_case idx sn c \<Longrightarrow>
   gtest_case_step idx sn c (d, out) =
     ((d, out @ [NotInSource (format_dotted sn (node_get c ''name''))]), None)"
  by (simp add: gtest_case_step_def known_case_def Let_def)

lemma gtest_case_step_Inl:
  "map_of idx (format_dotted sn (node_get c ''name'')) = Some f \<Longrightarrow>
   gtest_test_case (format_dotted sn (node_get c ''name'')) c = Inl e \<Longrightarrow>
   gtest_case_step idx sn c (d, out) = ((ensure_group (Some f) d, out), Some e)"
  by (simp add: gtest_case_step_def Let_def)

lemma gtest_case_step_Inr:
  "map_of idx (format_dotted sn (node_get c ''name'')) = Some f \<Longrightarrow>
   gtest_test_case (format_dotted sn (node_get c ''name'')) c = Inr t \<Longrightarrow>
   gtest_case_step idx sn c (d, out) =
     ((AList.map_entry (Some f) (add_test_cases [t]) (ensure_group (Some f) d), out), None)"
  by (simp add: gtest_case_step_def Let_def add_test_case_eq)

lemma gtest_case_step_cases:
  obtains (unknown) "\<not> known_case idx sn c"
      "\<And>d out. gtest_case_step idx sn c (d, out) =
         ((d, out @ [NotInSource (format_dotted sn (node_get c ''name''))]), None)"
  | (raises) f e where "known_case idx sn c"
      "map_of idx (format_dotted sn (node_get c ''name'')) = Some f"
      "\<And>d out. gtest_case_step idx sn c (d, out) = ((ensure_group (Some f) d, out), Some e)"
  | (added) f t where "known_case idx sn c"
      "map_of idx (format_dotted sn (node_get c ''name'')) = Some f"
      "name t = format_dotted sn (node_get c ''name'')"
      "\<And>d out. gtest_case_step idx sn c (d, out) =
         ((AList.map_entry (Some f) (add_test_cases [t]) (ensure_group (Some f) d), out), None)"
proof (cases "map_of idx (format_dotted sn (node_get c ''name''))")
  case None
  then have "\<not> known_case idx sn c" by (simp add: known_case_def)
  with unknown gtest_case_step_unknown show ?thesis by blast
next
  case (Some f)
  then have k: "known_case idx sn c" by (simp add: known_case_def)
  show ?thesis
  proof (cases "gtest_test_case (format_dotted sn (node_get c ''name'')) c")
    case (Inl e)
    with raises [OF k Some] gtest_case_step_Inl [OF Some] show ?thesis by blast
  next
    case (Inr t)
    then have "name t = format_dotted sn (node_get c ''name'')"
      by (auto simp: gtest_test_case_def split: sum.splits)
    with added [OF k Some] gtest_case_step_Inr [OF Some Inr] show ?thesis by blast
  qed
qed

lemma index_groups_Nil: "index_groups idx []"
  by (simp add: index_groups_def)

lemma index_groups_ensure:
  "index_groups idx d \<Longrightarrow> p \<in> snd ` set idx \<Longrightarrow> index_groups idx (ensure_group (Some p) d)"
  by (simp add: index_groups_def ensure_group_def SonarTestExcution_init_def)

lemma index_groups_Cons:
  "index_groups idx (kg # d) \<longleftrightarrow>
     (\<exists>p. fst kg = Some p \<and> p \<in> snd ` set idx)
     \<and> (\<forall>t \<in> set (test_cases (snd kg)). map_of idx (name t) \<noteq> None)
     \<and> index_groups idx d"
  by (cases kg) (simp add: index_groups_def)

lemma index_groups_map_entry:
  "index_groups idx d \<Longrightarrow> \<forall>t \<in> set tcs. map_of idx (name t) \<noteq> None \<Longrightarrow>
   index_groups idx (AList.map_entry k (add_test_cases tcs) d)"
proof (induction d)
  case Nil
  then show ?case by simp
next
  case (Cons kg d)
  from Cons.prems(1) have tl: "index_groups idx d"
    and hd: "\<exists>p. fst kg = Some p \<and> p \<in> snd ` set idx"
      "\<forall>t \<in> set (test_cases (snd kg)). map_of idx (name t) \<noteq> None"
    by (simp_all add: index_groups_Cons)
  show ?case
  proof (cases "fst kg = k")
    case True
    with hd tl Cons.prems(2) show ?thesis
      by (simp add: index_groups_Cons add_test_cases_def) blast
  next
    case False
    with hd tl Cons.IH [OF tl Cons.prems(2)] show ?thesis
      by (simp add: index_groups_Cons)
  qed
qed

lemma wf_executions_Nil: "wf_executions idx []"
  by (simp add: wf_executions_def index_groups_Nil keyed_Nil)

lemma wf_executions_ensure:
  "wf_executions idx d \<Longrightarrow> p \<in> snd ` set idx \<Longrightarrow> wf_executions idx (ensure_group (Some p) d)"
  by (simp add: wf_executions_def distinct_ensure_group keyed_ensure_group index_groups_ensure)

lemma wf_executions_add:
  "wf_executions idx d \<Longrightarrow> p \<in> snd ` set idx \<Longrightarrow> \<forall>t \<in> set tcs. map_of idx (name t) \<noteq> None \<Longrightarrow>
   wf_executions idx (AList.map_entry (Some p) (add_test_cases tcs) (ensure_group (Some p) d))"
  by (simp add: wf_executions_def distinct_add keyed_add index_groups_ensure index_groups_map_entry)

lemma map_of_in_range: "map_of idx k = Some p \<Longrightarrow> p \<in> snd ` set idx"
  by (metis image_eqI map_of_SomeD snd_conv)

lemma gtest_case_step_wf:
  assumes "wf_executions idx (fst s)" and "gtest_case_step idx sn c s = (s', e)"
  shows "wf_executions idx (fst s')"
proof -
  obtain d out where s: "s = (d, out)" by (cases s)
  show ?thesis
  proof (cases rule: gtest_case_step_cases [of idx sn c])
    case unknown
    with assms s show ?thesis by auto
  next
    case (raises f e')
    with assms s show ?thesis
      by (auto simp: wf_executions_ensure map_of_in_range)
  next
    case (added f t)
    from added(2) have "f \<in> snd ` set idx" by (rule map_of_in_range)
    moreover from added(1,3) have "\<forall>t' \<in> set [t]. map_of idx (name t') \<noteq> None"
      by (simp add: known_case_def)
    ultimately have "wf_executions idx (AList.map_entry (Some f) (add_test_cases [t]) (ensure_group (Some f) d))"
      using assms(1) s by (simp add: wf_executions_add)
    with assms(2) s added(4) show ?thesis by auto
  qed
qed

lemma gtest_suite_step_wf:
  assumes "wf_executions idx (fst s)" and "gtest_suite_step idx suite s = (s', e)"
  shows "wf_executions idx (fst s')"
  using for_each_invariant [where P = "\<lambda>s. wf_executions idx (fst s)"
      and f = "gtest_case_step idx (node_get suite ''name'')", OF _ assms(1)]
    assms(2) gtest_case_step_wf
  unfolding gtest_suite_step_def by blast

lemma GoogleTest_doParse_tree_wf:
  assumes "GoogleTest_doParse_tree idx tree = (s, e)"
  shows "wf_executions idx (fst s)"
  using for_each_invariant [where P = "\<lambda>s. wf_executions idx (fst s)"
      and f = "gtest_suite_step idx" and s = "([], [])"]
    assms gtest_suite_step_wf wf_executions_Nil
  unfolding GoogleTest_doParse_tree_def by (metis fst_conv)

lemma GoogleTest_doParse_wf: "wf_executions idx (fst (GoogleTest_doParse ev p idx))"
proof (cases "parse_xml ev p")
  case (Inl e)
  then show ?thesis by (simp add: GoogleTest_doParse_def wf_executions_Nil)
next
  case (Inr tree)
  obtain d out e where r: "GoogleTest_doParse_tree idx tree = ((d, out), e)"
    by (metis surj_pair)
  from GoogleTest_doParse_tree_wf [OF r] have "wf_executions idx d" by simp
  with Inr r show ?thesis
    by (cases e) (simp_all add: GoogleTest_doParse_def)
qed

lemma index_groups_merge:
  "index_groups idx acc \<Longrightarrow> index_groups idx items \<Longrightarrow> index_groups idx (merge_items items acc)"
proof (induction items arbitrary: acc)
  case Nil
  then show ?case by (simp add: merge_items_def)
next
  case (Cons kv items)
  obtain k v where kv: "kv = (k, v)" by (cases kv)
  from Cons.prems(2) kv obtain p where p: "k = Some p" "p \<in> snd ` set idx"
    and names: "\<forall>t \<in> set (test_cases v). map_of idx (name t) \<noteq> None"
    and rest: "index_groups idx items"
    by (auto simp: index_groups_def)
  have "index_groups idx (AList.map_entry k (add_test_cases (test_cases v)) (ensure_group k acc))"
    using Cons.prems(1) p names by (simp add: index_groups_ensure index_groups_map_entry)
  from Cons.IH [OF this rest] show ?case
    by (simp add: kv merge_items_Cons)
qed

lemma wf_executions_merge:
  "wf_executions idx acc \<Longrightarrow> wf_executions idx items \<Longrightarrow> wf_executions idx (merge_items items acc)"
  using merge_items_inv [of acc items] by (simp add: wf_executions_def index_groups_merge)

lemma fold_filter_map:
  assumes "\<And>x s. f x s = (if P x then g (h x) s else s)"
  shows "fold f xs s = fold g (map h (filter P xs)) s"
  by (induction xs arbitrary: s) (simp_all add: assms)

lemma fold_fold_concat:
  assumes "\<And>x s. f x s = fold g (h x) s"
  shows "fold f xs s = fold g (concat (map h xs)) s"
  by (induction xs arbitrary: s) (simp_all add: assms)

lemma gtest_file_step_eq:
  "gtest_file_step ev regexp idx dirName f s =
     (if regexp f then gtest_path_step ev idx (path_join dirName f) s else s)"
  by (cases s) (simp add: gtest_file_step_def gtest_path_step_def dict_items_def split: prod.splits)

lemma gtest_files_fold:
  "fold (gtest_file_step ev regexp idx dirName) fileList s =
   fold (gtest_path_step ev idx) (map (path_join dirName) (filter regexp fileList)) s"
  by (rule fold_filter_map) (rule gtest_file_step_eq)

lemma gtest_walk_fold:
  "fold (\<lambda>(dirName, fileList). fold (gtest_file_step ev regexp idx dirName) fileList) w s =
   fold (gtest_path_step ev idx)
     (concat (map (\<lambda>(dirName, fileList). map (path_join dirName) (filter regexp fileList)) w)) s"
  by (rule fold_fold_concat) (simp add: gtest_files_fold split: prod.splits)

lemma fst_gtest_path_step:
  "fst (gtest_path_step ev idx p s) = merge_items (fst (GoogleTest_doParse ev p idx)) (fst s)"
  by (simp add: gtest_path_step_def)

lemma gtest_paths_wf:
  "wf_executions idx (fst s) \<Longrightarrow> wf_executions idx (fst (fold (gtest_path_step ev idx) paths s))"
proof (induction paths arbitrary: s)
  case Nil
  then show ?case by simp
next
  case (Cons p paths)
  have "wf_executions idx (fst (gtest_path_step ev idx p s))"
    using Cons.prems GoogleTest_doParse_wf [of idx ev p]
    by (simp add: fst_gtest_path_step wf_executions_merge)
  from Cons.IH [OF this] show ?case by simp
qed

lemma gtest_paths_cases:
  "cases_of (fst (fold (gtest_path_step ev idx) paths s)) k =
     cases_of (fst s) k @ concat (map (\<lambda>p. cases_of (fst (GoogleTest_doParse ev p idx)) k) paths)"
proof (induction paths arbitrary: s)
  case Nil
  then show ?case by simp
next
  case (Cons p paths)
  have "distinct (map fst (fst (GoogleTest_doParse ev p idx)))"
    using GoogleTest_doParse_wf [of idx ev p] by (simp add: wf_executions_def)
  then have "cases_of (fst (gtest_path_step ev idx p s)) k =
      cases_of (fst s) k @ cases_of (fst (GoogleTest_doParse ev p idx)) k"
    by (simp add: fst_gtest_path_step merge_items_cases cases_of_distinct)
  with Cons.IH [of "gtest_path_step ev idx p s"] show ?case by simp
qed

lemma gtest_paths_keys:
  "fst ` set (fst (fold (gtest_path_step ev idx) paths s)) =
     fst ` set (fst s) \<union> (\<Union>p \<in> set paths. fst ` set (fst (GoogleTest_doParse ev p idx)))"
proof (induction paths arbitrary: s)
  case Nil
  then show ?case by simp
next
  case (Cons p paths)
  have "fst ` set (fst (gtest_path_step ev idx p s)) =
      fst ` set (fst s) \<union> fst ` set (fst (GoogleTest_doParse ev p idx))"
    by (simp add: fst_gtest_path_step merge_items_keys)
  with Cons.IH [of "gtest_path_step ev idx p s"] show ?case by (simp add: Un_assoc)
qed

lemma GoogleTest_parse_eq:
  assumes "doParseSrcFolder ev src_folder src_pattern = Inr idx" and "re_compile ev pattern = Inr regexp"
  shows "GoogleTest_parse ev folder pattern src_folder src_pattern =
     (Inr (map snd (fst (fold (gtest_path_step ev idx) (matching_paths ev folder regexp) ([], [])))),
      snd (fold (gtest_path_step ev idx) (matching_paths ev folder regexp) ([], [])))"
  by (simp add: GoogleTest_parse_def assms gtest_walk_fold matching_paths_def split: prod.splits)

text \<open>The JUnit aggregation loop never adds a group: it raises at the first matching
  report file.\<close>

lemma junit_file_step_acc:
  "junit_file_step ev regexp dirName f s = (s', e) \<Longrightarrow> fst s' = fst s"
  by (cases s) (auto simp: junit_file_step_def dict_iteritems_def split: if_splits prod.splits)

lemma junit_files_acc:
  assumes "for_each (junit_file_step ev regexp dirName) fs s = (s', e)"
  shows "fst s' = fst s"
proof -
  have "\<And>x t t' e. x \<in> set fs \<Longrightarrow> fst t = fst s \<Longrightarrow>
      junit_file_step ev regexp dirName x t = (t', e) \<Longrightarrow> fst t' = fst s"
    using junit_file_step_acc by metis
  from for_each_invariant [where P = "\<lambda>t. fst t = fst s", OF this _ assms] show ?thesis
    by simp
qed

lemma junit_walk_acc:
  assumes "for_each (\<lambda>(dirName, fileList). for_each (junit_file_step ev regexp dirName) fileList) w s = (s', e)"
  shows "fst s' = fst s"
proof -
  have "\<And>x t t' e. x \<in> set w \<Longrightarrow> fst t = fst s \<Longrightarrow>
      (\<lambda>(dirName, fileList). for_each (junit_file_step ev regexp dirName) fileList) x t = (t', e) \<Longrightarrow>
      fst t' = fst s"
    using junit_files_acc by (auto split: prod.splits)
  from for_each_invariant [where P = "\<lambda>t. fst t = fst s", OF this _ assms] show ?thesis
    by simp
qed

lemma JUnit_parse_no_groups:
  assumes "JUnit_parse ev folder pattern = (Inr groups, printed)"
  shows "groups = []"
proof (cases "re_compile ev pattern")
  case (Inl e)
  with assms show ?thesis by (simp add: JUnit_parse_def)
next
  case (Inr regexp)
  obtain acc out e where r:
    "for_each (\<lambda>(dirName, fileList). for_each (junit_file_step ev regexp dirName) fileList)
       (walk ev folder) ([], []) = ((acc, out), e)"
    by (metis surj_pair)
  from junit_walk_acc [OF r] have "acc = []" by simp
  with assms Inr r show ?thesis
    by (cases e) (simp_all add: JUnit_parse_def)
qed

text \<open>
  C6: in a Google Test run the aggregated result has at most one group per source file
  path, and the group of a path holds the test cases that the matching report files
  attribute to that path, file after file in walk order, duplicates included. Merging one
  report's dictionary into the aggregate only appends to the group of the same key and
  adds the keys that are new, so a test case stays in the group it was added to.
\<close>

theorem GoogleTest_parse_aggregation:
  assumes "doParseSrcFolder ev src_folder src_pattern = Inr idx"
    and "re_compile ev pattern = Inr regexp"
    and "GoogleTest_parse ev folder pattern src_folder src_pattern = (Inr groups, out)"
  shows "distinct (map file_path groups)
    \<and> (\<forall>g \<in> set groups.
          test_cases g =
            concat (map (\<lambda>p. cases_of (fst (GoogleTest_doParse ev p idx)) (file_path g))
                        (matching_paths ev folder regexp)))
    \<and> file_path ` set groups =
        (\<Union>p \<in> set (matching_paths ev folder regexp). fst ` set (fst (GoogleTest_doParse ev p idx)))
    \<and> (\<forall>items acc k.
          cases_of (merge_items items acc) k =
            cases_of acc k @ concat (map (\<lambda>kv. test_cases (snd kv)) (filter (\<lambda>kv. fst kv = k) items))
          \<and> fst ` set (merge_items items acc) = fst ` set acc \<union> fst ` set items)"
proof -
  let ?acc = "fst (fold (gtest_path_step ev idx) (matching_paths ev folder regexp) ([], []))"
  from assms(3) GoogleTest_parse_eq [OF assms(1,2), of folder]
  have groups: "groups = map snd ?acc" by simp
  have wf: "wf_executions idx ?acc"
    using gtest_paths_wf [of idx "([], [])" ev] by (simp add: wf_executions_Nil)
  then have d: "distinct (map fst ?acc)" and k: "keyed ?acc"
    by (simp_all add: wf_executions_def)
  have fp: "map file_path groups = map fst ?acc"
    using keyed_file_paths [OF k] groups by simp
  have 1: "distinct (map file_path groups)"
    using d fp by simp
  have 2: "test_cases g =
      concat (map (\<lambda>p. cases_of (fst (GoogleTest_doParse ev p idx)) (file_path g))
                  (matching_paths ev folder regexp))" if "g \<in> set groups" for g
  proof -
    from that groups obtain key where mem: "(key, g) \<in> set ?acc" by auto
    with k have "file_path g = key" by (auto simp: keyed_def)
    moreover from cases_of_member [OF d mem] have "cases_of ?acc key = test_cases g" .
    ultimately show ?thesis
      using gtest_paths_cases [of ev idx "matching_paths ev folder regexp" "([], [])" key]
      by (simp add: cases_of_Nil)
  qed
  have 3: "file_path ` set groups =
      (\<Union>p \<in> set (matching_paths ev folder regexp). fst ` set (fst (GoogleTest_doParse ev p idx)))"
  proof -
    have "file_path ` set groups = set (map file_path groups)" by simp
    also have "\<dots> = fst ` set ?acc" using fp by simp
    also have "\<dots> = (\<Union>p \<in> set (matching_paths ev folder regexp). fst ` set (fst (GoogleTest_doParse ev p idx)))"
      using gtest_paths_keys [of ev idx "matching_paths ev folder regexp" "([], [])"] by simp
    finally show ?thesis .
  qed
  have 4: "\<forall>items acc k.
          cases_of (merge_items items acc) k =
            cases_of acc k @ concat (map (\<lambda>kv. test_cases (snd kv)) (filter (\<lambda>kv. fst kv = k) items))
          \<and> fst ` set (merge_items items acc) = fst ` set acc \<union> fst ` set items"
    by (simp add: merge_items_cases merge_items_keys)
  from 2 have all2: "\<forall>g \<in> set groups.
          test_cases g =
            concat (map (\<lambda>p. cases_of (fst (GoogleTest_doParse ev p idx)) (file_path g))
                        (matching_paths ev folder regexp))" by blast
  show ?thesis
    by (intro conjI) (rule 1, rule all2, rule 3, rule 4)
qed

theorem GoogleTest_parse_aggregation_witness:
  "GoogleTest_parse two_files_env ''reports'' ''.*'' ''src'' ''.*''
     = (Inr [\<lparr>file_path = Some ''src/sub/b.cpp'',
              test_cases = [\<lparr>name = ''Foo.t1'', duration = ''2'', msg = None\<rparr>,
                            \<lparr>name = ''Foo.t1'', duration = ''2'', msg = None\<rparr>]\<rparr>], [])
   \<and> concat (map (\<lambda>p. cases_of (fst (GoogleTest_doParse two_files_env p
                          [(''Foo.t1'', ''src/sub/b.cpp''), (''Foo.t2'', ''src/a.cpp'')]))
                        (Some ''src/sub/b.cpp''))
                 (matching_paths two_files_env ''reports'' (\<lambda>n. True)))
     = [\<lparr>name = ''Foo.t1'', duration = ''2'', msg = None\<rparr>,
        \<lparr>name = ''Foo.t1'', duration = ''2'', msg = None\<rparr>]"
proof -
  have h1: "doParseSrcFolder two_files_env ''src'' ''.*''
      = Inr [(''Foo.t1'', ''src/sub/b.cpp''), (''Foo.t2'', ''src/a.cpp'')]"
    by code_simp
  have h2: "re_compile two_files_env ''.*'' = Inr (\<lambda>n. True)"
    by (simp add: two_files_env_def)
  have h3: "GoogleTest_parse two_files_env ''reports'' ''.*'' ''src'' ''.*''
     = (Inr [\<lparr>file_path = Some ''src/sub/b.cpp'',
              test_cases = [\<lparr>name = ''Foo.t1'', duration = ''2'', msg = None\<rparr>,
                            \<lparr>name = ''Foo.t1'', duration = ''2'', msg = None\<rparr>]\<rparr>], [])"
    by code_simp
  from GoogleTest_parse_aggregation [OF h1 h2 h3] h3 show ?thesis
    by simp
qed

subsection \<open>Test cases missing from the source index\<close>

lemma gtest_flat:
  "GoogleTest_doParse_tree idx tree =
     for_each (\<lambda>(s, c). gtest_case_step idx (node_get s ''name'') c)
       (concat (map (\<lambda>s. map (Pair s) (xpath_child ''testcase'' s))
                    (xpath_root_child ''testsuites'' ''testsuite'' tree))) ([], [])"
proof -
  have "gtest_suite_step idx = (\<lambda>s. for_each (gtest_case_step idx (node_get s ''name'')) (xpath_child ''testcase'' s))"
    by (simp add: gtest_suite_step_def fun_eq_iff)
  then show ?thesis
    by (simp add: GoogleTest_doParse_tree_def for_each_nested)
qed

lemma gtest_flat_out:
  "for_each (\<lambda>(s, c). gtest_case_step idx (node_get s ''name'') c) cs (d0, out0) = ((d, out), None) \<Longrightarrow>
   out = out0 @ map NotInSource
     (filter (\<lambda>nm. map_of idx nm = None)
        (map (\<lambda>(s, c). format_dotted (node_get s ''name'') (node_get c ''name'')) cs))"
proof (induction cs arbitrary: d0 out0)
  case Nil
  then show ?case by simp
next
  case (Cons sc cs)
  obtain s c where sc: "sc = (s, c)" by (cases sc)
  show ?case
  proof (cases rule: gtest_case_step_cases [of idx "node_get s ''name''" c])
    case unknown
    with Cons.prems sc have
      "for_each (\<lambda>(s, c). gtest_case_step idx (node_get s ''name'') c) cs
         (d0, out0 @ [NotInSource (format_dotted (node_get s ''name'') (node_get c ''name''))]) = ((d, out), None)"
      by simp
    from Cons.IH [OF this] unknown(1) sc show ?thesis
      by (simp add: known_case_def)
  next
    case (raises f e)
    with Cons.prems sc show ?thesis by simp
  next
    case (added f t)
    with Cons.prems sc have
      "for_each (\<lambda>(s, c). gtest_case_step idx (node_get s ''name'') c) cs
         (AList.map_entry (Some f) (add_test_cases [t]) (ensure_group (Some f) d0), out0) = ((d, out), None)"
      by simp
    from Cons.IH [OF this] added(2) sc show ?thesis
      by simp
  qed
qed

lemma qualified_names_flat:
  "qualified_names tree =
     map (\<lambda>(s, c). format_dotted (node_get s ''name'') (node_get c ''name''))
       (concat (map (\<lambda>s. map (Pair s) (xpath_child ''testcase'' s))
                    (xpath_root_child ''testsuites'' ''testsuite'' tree)))"
  by (simp add: qualified_names_def map_concat comp_def)

lemma GoogleTest_doParse_tree_out:
  "GoogleTest_doParse_tree idx tree = ((d, out), None) \<Longrightarrow>
   out = map NotInSource (filter (\<lambda>nm. map_of idx nm = None) (qualified_names tree))"
  using gtest_flat_out [of idx _ "[]" "[]" d out]
  by (simp add: gtest_flat qualified_names_flat)

lemma gtest_cases_filter_known:
  "fst (fst (for_each (gtest_case_step idx sn) (filter (known_case idx sn) cs) (d, out'))) =
     fst (fst (for_each (gtest_case_step idx sn) cs (d, out)))
   \<and> snd (for_each (gtest_case_step idx sn) (filter (known_case idx sn) cs) (d, out')) =
     snd (for_each (gtest_case_step idx sn) cs (d, out))"
proof (induction cs arbitrary: d out out')
  case Nil
  then show ?case by simp
next
  case (Cons c cs)
  show ?case
  proof (cases rule: gtest_case_step_cases [of idx sn c])
    case unknown
    with Cons.IH [of d out' "out @ [NotInSource (format_dotted sn (node_get c ''name''))]"]
    show ?thesis by simp
  next
    case (raises f e)
    then show ?thesis by simp
  next
    case (added f t)
    with Cons.IH [of "AList.map_entry (Some f) (add_test_cases [t]) (ensure_group (Some f) d)" out' out]
    show ?thesis by simp
  qed
qed

lemma tag_of_drop_unknown_in_suite: "tag_of (drop_unknown_in_suite idx s) = tag_of s"
  by (cases s) (simp_all add: drop_unknown_in_suite_def tag_of_def)

lemma drop_unknown_in_suite_name:
  "node_get (drop_unknown_in_suite idx s) ''name'' = node_get s ''name''"
  by (cases s) (simp_all add: drop_unknown_in_suite_def node_get_def)

lemma drop_unknown_in_suite_cases:
  "tag_of s = Some ''testsuite'' \<Longrightarrow>
   xpath_child ''testcase'' (drop_unknown_in_suite idx s) =
     filter (known_case idx (node_get s ''name'')) (xpath_child ''testcase'' s)"
proof (cases s)
  case (Element t a x cs)
  assume "tag_of s = Some ''testsuite''"
  with Element have t: "t = ''testsuite''" by (simp add: tag_of_def)
  have "filter (\<lambda>k. tag_of k = Some ''testcase'')
          (filter (\<lambda>c. tag_of c = Some ''testcase'' \<longrightarrow> known_case idx (map_of a ''name'') c) cs) =
        filter (known_case idx (map_of a ''name'')) (filter (\<lambda>k. tag_of k = Some ''testcase'') cs)"
    by (induction cs) auto
  with Element t show ?thesis
    by (simp add: drop_unknown_in_suite_def xpath_child_def children_of_def node_get_def)
next
  case Other
  assume "tag_of s = Some ''testsuite''"
  with Other show ?thesis by (simp add: tag_of_def)
qed

lemma drop_unknown_suites:
  "xpath_root_child ''testsuites'' ''testsuite'' (drop_unknown_cases idx tree) =
     map (drop_unknown_in_suite idx) (xpath_root_child ''testsuites'' ''testsuite'' tree)"
proof (cases tree)
  case (Element t a x suites)
  have "filter (\<lambda>k. tag_of k = Some ''testsuite'') (map (drop_unknown_in_suite idx) suites) =
        map (drop_unknown_in_suite idx) (filter (\<lambda>k. tag_of k = Some ''testsuite'') suites)"
    by (induction suites) (auto simp: tag_of_drop_unknown_in_suite)
  with Element show ?thesis
    by (simp add: drop_unknown_cases_def xpath_root_child_def xpath_child_def children_of_def tag_of_def)
next
  case Other
  then show ?thesis
    by (simp add: drop_unknown_cases_def xpath_root_child_def tag_of_def)
qed

lemma gtest_suite_step_drop:
  assumes "tag_of s = Some ''testsuite''"
  shows "fst (fst (gtest_suite_step idx (drop_unknown_in_suite idx s) (d, out'))) =
           fst (fst (gtest_suite_step idx s (d, out)))
       \<and> snd (gtest_suite_step idx (drop_unknown_in_suite idx s) (d, out')) =
           snd (gtest_suite_step idx s (d, out))"
  using gtest_cases_filter_known [of idx "node_get s ''name''" "xpath_child ''testcase'' s" d out' out]
  by (simp add: gtest_suite_step_def drop_unknown_in_suite_cases [OF assms] drop_unknown_in_suite_name)

lemma gtest_suites_drop:
  assumes "\<forall>s \<in> set suites. tag_of s = Some ''testsuite''"
  shows "fst (fst (for_each (gtest_suite_step idx) (map (drop_unknown_in_suite idx) suites) (d, out'))) =
           fst (fst (for_each (gtest_suite_step idx) suites (d, out)))
       \<and> snd (for_each (gtest_suite_step idx) (map (drop_unknown_in_suite idx) suites) (d, out')) =
           snd (for_each (gtest_suite_step idx) suites (d, out))"
  using assms
proof (induction suites arbitrary: d out out')
  case Nil
  then show ?case by simp
next
  case (Cons s suites)
  from Cons.prems have ts: "tag_of s = Some ''testsuite''"
    and rest: "\<forall>s \<in> set suites. tag_of s = Some ''testsuite''" by simp_all
  obtain d1 o1 e1 where r1: "gtest_suite_step idx s (d, out) = ((d1, o1), e1)"
    by (metis surj_pair)
  obtain d2 o2 e2 where r2: "gtest_suite_step idx (drop_unknown_in_suite idx s) (d, out') = ((d2, o2), e2)"
    by (metis surj_pair)
  from gtest_suite_step_drop [OF ts, of idx d out' out] r1 r2 have eq: "d2 = d1" "e2 = e1"
    by simp_all
  show ?case
  proof (cases e1)
    case None
    with r1 r2 eq Cons.IH [OF rest, of d1 o2 o1] show ?thesis by simp
  next
    case (Some e)
    with r1 r2 eq show ?thesis by simp
  qed
qed

lemma xpath_root_child_tags:
  "\<forall>s \<in> set (xpath_root_child r c tree). tag_of s = Some c"
  by (simp add: xpath_root_child_def xpath_child_def)

lemma GoogleTest_doParse_tree_drop:
  "fst (fst (GoogleTest_doParse_tree idx (drop_unknown_cases idx tree))) =
     fst (fst (GoogleTest_doParse_tree idx tree))
   \<and> snd (GoogleTest_doParse_tree idx (drop_unknown_cases idx tree)) =
     snd (GoogleTest_doParse_tree idx tree)"
proof -
  have "\<forall>s \<in> set (xpath_root_child ''testsuites'' ''testsuite'' tree). tag_of s = Some ''testsuite''"
    by (rule xpath_root_child_tags)
  from gtest_suites_drop [OF this, of idx "[]" "[]" "[]"] show ?thesis
    by (simp add: GoogleTest_doParse_tree_def drop_unknown_suites)
qed

lemma index_groups_member:
  "index_groups idx d \<Longrightarrow> (k, g) \<in> set d \<Longrightarrow> t \<in> set (test_cases g) \<Longrightarrow>
   map_of idx (name t) \<noteq> None"
  unfolding index_groups_def by blast

lemma GoogleTest_parse_names_known:
  assumes src: "doParseSrcFolder ev src_folder src_pattern = Inr idx"
    and run: "GoogleTest_parse ev folder pattern src_folder src_pattern = (Inr groups, printed)"
  shows "\<forall>g \<in> set groups. \<forall>t \<in> set (test_cases g). map_of idx (name t) \<noteq> None"
proof (cases "re_compile ev pattern")
  case (Inl e)
  with src run show ?thesis by (simp add: GoogleTest_parse_def)
next
  case (Inr regexp)
  let ?acc = "fst (fold (gtest_path_step ev idx) (matching_paths ev folder regexp) ([], []))"
  from run GoogleTest_parse_eq [OF src Inr, of folder] have groups: "groups = map snd ?acc" by simp
  have "wf_executions idx ?acc"
    using gtest_paths_wf [of idx "([], [])" ev "matching_paths ev folder regexp"]
    by (simp add: wf_executions_Nil)
  then have ig: "index_groups idx ?acc"
    by (simp add: wf_executions_def)
  show ?thesis
  proof (intro ballI)
    fix g t
    assume "g \<in> set groups" and t: "t \<in> set (test_cases g)"
    with groups obtain k where "(k, g) \<in> set ?acc" by auto
    from index_groups_member [OF ig this t] show "map_of idx (name t) \<noteq> None" .
  qed
qed

text \<open>
  C4: in \<^verbatim>\<open>GoogleTestReportParser.doParse\<close> every group is keyed by a source file of the
  index and every test case kept has a qualified name the index knows, so a test case
  without an index entry is in no group; when the report is read without an exception,
  what is printed is exactly one notice per such test case, in document order; and the
  dictionary (and the exception, if any) is the one obtained from the report with those
  test cases removed, so the other test cases are not affected. The same holds for the
  groups of a whole run.
\<close>

theorem GoogleTest_unknown_cases_dropped:
  assumes "GoogleTest_doParse_tree idx tree = ((d, out), x)"
  shows "(\<forall>(k, g) \<in> set d. (\<exists>p. k = Some p \<and> p \<in> snd ` set idx)
            \<and> (\<forall>t \<in> set (test_cases g). map_of idx (name t) \<noteq> None))
    \<and> (x = None \<longrightarrow> out = map NotInSource (filter (\<lambda>nm. map_of idx nm = None) (qualified_names tree)))
    \<and> fst (fst (GoogleTest_doParse_tree idx (drop_unknown_cases idx tree))) = d
    \<and> snd (GoogleTest_doParse_tree idx (drop_unknown_cases idx tree)) = x
    \<and> (\<forall>ev folder pattern src_folder src_pattern groups printed.
          doParseSrcFolder ev src_folder src_pattern = Inr idx
          \<and> GoogleTest_parse ev folder pattern src_folder src_pattern = (Inr groups, printed)
          \<longrightarrow> (\<forall>g \<in> set groups. \<forall>t \<in> set (test_cases g). map_of idx (name t) \<noteq> None))"
proof (intro conjI)
  from GoogleTest_doParse_tree_wf [OF assms] have "index_groups idx d"
    by (simp add: wf_executions_def)
  then show "\<forall>(k, g) \<in> set d. (\<exists>p. k = Some p \<and> p \<in> snd ` set idx)
            \<and> (\<forall>t \<in> set (test_cases g). map_of idx (name t) \<noteq> None)"
    by (simp add: index_groups_def)
  show "x = None \<longrightarrow> out = map NotInSource (filter (\<lambda>nm. map_of idx nm = None) (qualified_names tree))"
    using GoogleTest_doParse_tree_out [of idx tree d out] assms by simp
  show "fst (fst (GoogleTest_doParse_tree idx (drop_unknown_cases idx tree))) = d"
    using GoogleTest_doParse_tree_drop [of idx tree] assms by simp
  show "snd (GoogleTest_doParse_tree idx (drop_unknown_cases idx tree)) = x"
    using GoogleTest_doParse_tree_drop [of idx tree] assms by simp
  show "\<forall>ev folder pattern src_folder src_pattern groups printed.
          doParseSrcFolder ev src_folder src_pattern = Inr idx
          \<and> GoogleTest_parse ev folder pattern src_folder src_pattern = (Inr groups, printed)
          \<longrightarrow> (\<forall>g \<in> set groups. \<forall>t \<in> set (test_cases g). map_of idx (name t) \<noteq> None)"
    by (intro allI impI, elim conjE) (rule GoogleTest_parse_names_known)
qed

theorem GoogleTest_unknown_cases_dropped_witness:
  "GoogleTest_doParse_tree [(''Foo.t1'', ''src/foo_test.cpp'')] gtest_unknown_report
     = (([(Some ''src/foo_test.cpp'',
           \<lparr>file_path = Some ''src/foo_test.cpp'',
            test_cases = [\<lparr>name = ''Foo.t1'', duration = ''250'', msg = None\<rparr>]\<rparr>)],
         [NotInSource ''Foo.t9'']), None)
   \<and> fst (fst (GoogleTest_doParse_tree [(''Foo.t1'', ''src/foo_test.cpp'')]
          (drop_unknown_cases [(''Foo.t1'', ''src/foo_test.cpp'')] gtest_unknown_report)))
     = [(Some ''src/foo_test.cpp'',
           \<lparr>file_path = Some ''src/foo_test.cpp'',
            test_cases = [\<lparr>name = ''Foo.t1'', duration = ''250'', msg = None\<rparr>]\<rparr>)]
   \<and> map NotInSource (filter (\<lambda>nm. map_of [(''Foo.t1'', ''src/foo_test.cpp'')] nm = None)
          (qualified_names gtest_unknown_report)) = [NotInSource ''Foo.t9'']
   \<and> GoogleTest_parse (scenario_env gtest_unknown_report) ''reports'' ''.*'' ''src'' ''.*''
     = (Inr [\<lparr>file_path = Some ''src/foo_test.cpp'',
              test_cases = [\<lparr>name = ''Foo.t1'', duration = ''250'', msg = None\<rparr>]\<rparr>],
        [CantParse ''reports/bad.xml'' XMLSyntaxError, NotInSource ''Foo.t9''])
   \<and> map_of [(''Foo.t1'', ''src/foo_test.cpp''), (''Foo.t2'', ''src/foo_test.cpp'')] ''Foo.t1''
     = Some ''src/foo_test.cpp''"
proof -
  have h: "GoogleTest_doParse_tree [(''Foo.t1'', ''src/foo_test.cpp'')] gtest_unknown_report
     = (([(Some ''src/foo_test.cpp'',
           \<lparr>file_path = Some ''src/foo_test.cpp'',
            test_cases = [\<lparr>name = ''Foo.t1'', duration = ''250'', msg = None\<rparr>]\<rparr>)],
         [NotInSource ''Foo.t9'']), None)"
    by code_simp
  have src: "doParseSrcFolder (scenario_env gtest_unknown_report) ''src'' ''.*''
     = Inr [(''Foo.t1'', ''src/foo_test.cpp''), (''Foo.t2'', ''src/foo_test.cpp'')]"
    by code_simp
  have run: "GoogleTest_parse (scenario_env gtest_unknown_report) ''reports'' ''.*'' ''src'' ''.*''
     = (Inr [\<lparr>file_path = Some ''src/foo_test.cpp'',
              test_cases = [\<lparr>name = ''Foo.t1'', duration = ''250'', msg = None\<rparr>]\<rparr>],
        [CantParse ''reports/bad.xml'' XMLSyntaxError, NotInSource ''Foo.t9''])"
    by code_simp
  obtain d out x where h':
    "GoogleTest_doParse_tree [(''Foo.t1'', ''src/foo_test.cpp''), (''Foo.t2'', ''src/foo_test.cpp'')]
       gtest_unknown_report = ((d, out), x)"
    by (metis surj_pair)
  have known: "\<forall>g \<in> set [\<lparr>file_path = Some ''src/foo_test.cpp'',
              test_cases = [\<lparr>name = ''Foo.t1'', duration = ''250'', msg = None\<rparr>]\<rparr>].
      \<forall>t \<in> set (test_cases g).
        map_of [(''Foo.t1'', ''src/foo_test.cpp''), (''Foo.t2'', ''src/foo_test.cpp'')] (name t) \<noteq> None"
    using GoogleTest_unknown_cases_dropped [OF h', THEN conjunct2, THEN conjunct2, THEN conjunct2,
        THEN conjunct2] src run
    by blast
  from GoogleTest_unknown_cases_dropped [OF h] h run known show ?thesis
    by simp
qed

subsection \<open>The source index\<close>

lemma src_line_step_eq:
  "src_line_step path line idx =
     (case line_entry path line of None \<Rightarrow> idx | Some e \<Rightarrow> upd_entry e idx)"
  by (simp add: src_line_step_def line_entry_def upd_entry_def split: option.splits prod.splits)

lemma src_lines_fold:
  "fold (src_line_step path) ls idx = fold upd_entry (List.map_filter (line_entry path) ls) idx"
proof (induction ls arbitrary: idx)
  case Nil
  then show ?case by (simp add: map_filter_simps)
next
  case (Cons l ls)
  have step: "src_line_step path l idx =
      (case line_entry path l of None \<Rightarrow> idx | Some e \<Rightarrow> upd_entry e idx)"
    by (rule src_line_step_eq)
  show ?case
    by (cases "line_entry path l") (simp_all add: map_filter_simps step Cons.IH)
qed

lemma src_entries_Nil: "src_entries ev [] = []"
  by (simp add: src_entries_def)

lemma src_entries_Cons:
  "src_entries ev (p # ps) =
     (case read_lines ev p of Inl e \<Rightarrow> [] | Inr ls \<Rightarrow> List.map_filter (line_entry p) ls) @ src_entries ev ps"
  by (simp add: src_entries_def)

lemma src_entries_append: "src_entries ev (ps @ qs) = src_entries ev ps @ src_entries ev qs"
  by (simp add: src_entries_def)

lemma src_file_step_None:
  assumes "src_file_step ev regexp dirName f idx = (idx', None)"
  shows "idx' = fold upd_entry (src_entries ev (map (path_join dirName) (filter regexp [f]))) idx
     \<and> (\<forall>p \<in> set (map (path_join dirName) (filter regexp [f])). \<exists>ls. read_lines ev p = Inr ls)"
proof (cases "regexp f")
  case True
  with assms obtain ls where ls: "read_lines ev (path_join dirName f) = Inr ls"
    by (cases "read_lines ev (path_join dirName f)") (simp_all add: src_file_step_def)
  with assms True show ?thesis
    by (simp add: src_file_step_def src_entries_Cons src_entries_Nil src_lines_fold)
next
  case False
  with assms show ?thesis
    by (simp add: src_file_step_def src_entries_Nil)
qed

lemma src_files_loop:
  "for_each (src_file_step ev regexp dirName) fs idx = (idx', None) \<Longrightarrow>
   idx' = fold upd_entry (src_entries ev (map (path_join dirName) (filter regexp fs))) idx
   \<and> (\<forall>p \<in> set (map (path_join dirName) (filter regexp fs)). \<exists>ls. read_lines ev p = Inr ls)"
proof (induction fs arbitrary: idx)
  case Nil
  then show ?case by (simp add: src_entries_Nil)
next
  case (Cons f fs)
  obtain i1 e1 where step: "src_file_step ev regexp dirName f idx = (i1, e1)"
    by (cases "src_file_step ev regexp dirName f idx")
  with Cons.prems have e1: "e1 = None" and rest: "for_each (src_file_step ev regexp dirName) fs i1 = (idx', None)"
    by (cases e1; simp)+
  from src_file_step_None [OF step [unfolded e1]] Cons.IH [OF rest]
  show ?case
    by (cases "regexp f") (simp_all add: src_entries_Cons src_entries_Nil)
qed

lemma src_walk_loop:
  "for_each (\<lambda>(dirName, fileList). for_each (src_file_step ev regexp dirName) fileList) w idx = (idx', None) \<Longrightarrow>
   idx' = fold upd_entry
       (src_entries ev (concat (map (\<lambda>(dirName, fileList). map (path_join dirName) (filter regexp fileList)) w))) idx
   \<and> (\<forall>p \<in> set (concat (map (\<lambda>(dirName, fileList). map (path_join dirName) (filter regexp fileList)) w)).
         \<exists>ls. read_lines ev p = Inr ls)"
proof (induction w arbitrary: idx)
  case Nil
  then show ?case by (simp add: src_entries_Nil)
next
  case (Cons df w)
  obtain dirName fileList where df: "df = (dirName, fileList)" by (cases df)
  obtain i1 e1 where step: "for_each (src_file_step ev regexp dirName) fileList idx = (i1, e1)"
    by (cases "for_each (src_file_step ev regexp dirName) fileList idx")
  with Cons.prems df have e1: "e1 = None"
    and rest: "for_each (\<lambda>(dirName, fileList). for_each (src_file_step ev regexp dirName) fileList) w i1 = (idx', None)"
    by (cases e1; simp)+
  from src_files_loop [OF step [unfolded e1]] Cons.IH [OF rest] df
  show ?case
    by (simp add: src_entries_append) blast
qed

lemma map_of_upd_entry:
  "map_of (upd_entry e idx) key = (if fst e = key then Some (snd e) else map_of idx key)"
  by (simp add: upd_entry_def update_conv')

lemma distinct_upd_entry:
  "distinct (map fst idx) \<Longrightarrow> distinct (map fst (upd_entry e idx))"
  by (simp add: upd_entry_def distinct_update)

lemma map_of_fold_upd:
  "map_of (fold upd_entry es idx) key =
     (case filter (\<lambda>e. fst e = key) es of [] \<Rightarrow> map_of idx key | e # r \<Rightarrow> Some (snd (last (e # r))))"
proof (induction es arbitrary: idx)
  case Nil
  then show ?case by simp
next
  case (Cons e es)
  show ?case
    by (simp add: Cons.IH map_of_upd_entry split: list.splits)
qed

lemma distinct_fold_upd:
  "distinct (map fst idx) \<Longrightarrow> distinct (map fst (fold upd_entry es idx))"
  by (induction es arbitrary: idx) (simp_all add: distinct_upd_entry)

lemma line_entry_Some:
  "line_entry p line = Some (key, q) \<Longrightarrow>
   q = p \<and> (\<exists>g1 g2. GTEST_RE_search line = Some (g1, g2) \<and> key = py_strip g1 @ ''.'' @ py_strip g2)"
  by (auto simp: line_entry_def)

lemma src_entries_form:
  "(key, p) \<in> set (src_entries ev paths) \<Longrightarrow>
   \<exists>ls line g1 g2. p \<in> set paths \<and> read_lines ev p = Inr ls \<and> line \<in> set ls
     \<and> GTEST_RE_search line = Some (g1, g2) \<and> key = py_strip g1 @ ''.'' @ py_strip g2"
proof (induction paths)
  case Nil
  then show ?case by (simp add: src_entries_Nil)
next
  case (Cons a paths)
  show ?case
  proof (cases "(key, p) \<in> set (src_entries ev paths)")
    case True
    from Cons.IH [OF True] show ?thesis by auto
  next
    case False
    with Cons.prems obtain ls where ls: "read_lines ev a = Inr ls"
      and mem: "(key, p) \<in> set (List.map_filter (line_entry a) ls)"
      by (cases "read_lines ev a") (simp_all add: src_entries_Cons)
    from mem obtain line where "line \<in> set ls" "line_entry a line = Some (key, p)"
      by (auto simp: map_filter_def)
    with ls line_entry_Some [of a line key p] show ?thesis by auto
  qed
qed

lemma rev_dropWhile_takeWhile:
  "t = rev (dropWhile P (rev t)) @ rev (takeWhile P (rev t))"
  by (metis rev_append rev_rev_ident takeWhile_dropWhile_id)

lemma py_strip_decomp:
  "\<exists>a b. s = a @ py_strip s @ b \<and> (\<forall>c \<in> set a. py_isspace c) \<and> (\<forall>c \<in> set b. py_isspace c)"
proof -
  let ?t = "dropWhile py_isspace s"
  have 1: "s = takeWhile py_isspace s @ ?t" by simp
  have 2: "?t = py_strip s @ rev (takeWhile py_isspace (rev ?t))"
    unfolding py_strip_def by (rule rev_dropWhile_takeWhile)
  have "s = takeWhile py_isspace s @ py_strip s @ rev (takeWhile py_isspace (rev ?t))"
    using 1 2 by metis
  moreover have "\<forall>c \<in> set (takeWhile py_isspace s). py_isspace c"
    by (auto dest: set_takeWhileD)
  moreover have "\<forall>c \<in> set (rev (takeWhile py_isspace (rev ?t))). py_isspace c"
    by (auto dest: set_takeWhileD)
  ultimately show ?thesis by blast
qed

lemma py_strip_ends:
  "py_strip s = [] \<or> (\<not> py_isspace (hd (py_strip s)) \<and> \<not> py_isspace (last (py_strip s)))"
proof (cases "py_strip s = []")
  case True
  then show ?thesis by simp
next
  case False
  let ?t = "dropWhile py_isspace s"
  let ?u = "dropWhile py_isspace (rev ?t)"
  from False have u: "?u \<noteq> []" by (simp add: py_strip_def)
  have "last (py_strip s) = hd ?u"
    using u by (simp add: py_strip_def last_rev)
  moreover have "\<not> py_isspace (hd ?u)"
    using u by (rule hd_dropWhile)
  moreover have "\<not> py_isspace (hd (py_strip s))"
  proof -
    have t: "?t = py_strip s @ rev (takeWhile py_isspace (rev ?t))"
      unfolding py_strip_def by (rule rev_dropWhile_takeWhile)
    with False have "hd ?t = hd (py_strip s)"
      by (metis hd_append2)
    moreover from t False have "?t \<noteq> []" by (metis append_is_Nil_conv)
    then have "\<not> py_isspace (hd ?t)" by (rule hd_dropWhile)
    ultimately show ?thesis by simp
  qed
  ultimately show ?thesis by simp
qed

text \<open>
  C8: when \<^verbatim>\<open>doParseSrcFolder\<close> returns an index, every matching source file was read, the
  keys of the index are distinct, and a key is mapped to the path of the last entry with
  that key in scan order: the last file scanned wins, and a key matched in one file only
  is mapped to that file. Every entry comes from a line that \<^verbatim>\<open>GTEST_RE\<close> matches, with the
  key \<^verbatim>\<open>Arg1.Arg2\<close> built from the two groups after \<^verbatim>\<open>strip()\<close>, which removes exactly the
  leading and trailing whitespace.
\<close>

theorem doParseSrcFolder_last_wins:
  assumes "re_compile ev pattern = Inr regexp"
    and "doParseSrcFolder ev folder pattern = Inr idx"
  shows "distinct (map fst idx)
    \<and> (\<forall>p \<in> set (matching_paths ev folder regexp). \<exists>ls. read_lines ev p = Inr ls)
    \<and> (\<forall>key. map_of idx key =
          (case filter (\<lambda>e. fst e = key) (src_entries ev (matching_paths ev folder regexp)) of
             [] \<Rightarrow> None
           | e # r \<Rightarrow> Some (snd (last (e # r)))))
    \<and> (\<forall>key p. (\<exists>e \<in> set (src_entries ev (matching_paths ev folder regexp)). fst e = key)
          \<and> (\<forall>e \<in> set (src_entries ev (matching_paths ev folder regexp)). fst e = key \<longrightarrow> snd e = p)
          \<longrightarrow> map_of idx key = Some p)
    \<and> (\<forall>(key, p) \<in> set (src_entries ev (matching_paths ev folder regexp)).
          \<exists>ls line g1 g2. read_lines ev p = Inr ls \<and> line \<in> set ls
            \<and> GTEST_RE_search line = Some (g1, g2) \<and> key = py_strip g1 @ ''.'' @ py_strip g2)
    \<and> (\<forall>s. (\<exists>a b. s = a @ py_strip s @ b \<and> (\<forall>c \<in> set a. py_isspace c) \<and> (\<forall>c \<in> set b. py_isspace c))
          \<and> (py_strip s = [] \<or> (\<not> py_isspace (hd (py_strip s)) \<and> \<not> py_isspace (last (py_strip s)))))"
proof (intro conjI)
  let ?es = "src_entries ev (matching_paths ev folder regexp)"
  from assms obtain i where loop:
    "for_each (\<lambda>(dirName, fileList). for_each (src_file_step ev regexp dirName) fileList)
       (walk ev folder) [] = (i, None)" and i: "i = idx"
    by (auto simp: doParseSrcFolder_def split: prod.splits option.splits)
  from src_walk_loop [OF loop] i have idx: "idx = fold upd_entry ?es []"
    and reads: "\<forall>p \<in> set (matching_paths ev folder regexp). \<exists>ls. read_lines ev p = Inr ls"
    by (simp_all add: matching_paths_def)
  show "distinct (map fst idx)"
    using distinct_fold_upd [of "[]" ?es] idx by simp
  show "\<forall>p \<in> set (matching_paths ev folder regexp). \<exists>ls. read_lines ev p = Inr ls"
    by (rule reads)
  show lookup: "\<forall>key. map_of idx key =
          (case filter (\<lambda>e. fst e = key) ?es of [] \<Rightarrow> None | e # r \<Rightarrow> Some (snd (last (e # r))))"
    using map_of_fold_upd [of ?es "[]"] idx by (simp split: list.splits)
  show "\<forall>key p. (\<exists>e \<in> set ?es. fst e = key) \<and> (\<forall>e \<in> set ?es. fst e = key \<longrightarrow> snd e = p)
          \<longrightarrow> map_of idx key = Some p"
  proof (intro allI impI, elim conjE)
    fix key p
    assume ex: "\<exists>e \<in> set ?es. fst e = key" and all: "\<forall>e \<in> set ?es. fst e = key \<longrightarrow> snd e = p"
    let ?f = "filter (\<lambda>e. fst e = key) ?es"
    from ex have ne: "?f \<noteq> []" by (simp add: filter_empty_conv)
    then have "last ?f \<in> set ?f" by (rule last_in_set)
    with all have "snd (last ?f) = p" by simp
    with ne lookup show "map_of idx key = Some p"
      by (cases ?f) simp_all
  qed
  show "\<forall>(key, p) \<in> set ?es.
          \<exists>ls line g1 g2. read_lines ev p = Inr ls \<and> line \<in> set ls
            \<and> GTEST_RE_search line = Some (g1, g2) \<and> key = py_strip g1 @ ''.'' @ py_strip g2"
    using src_entries_form [of _ _ ev "matching_paths ev folder regexp"] by blast
  show "\<forall>s. (\<exists>a b. s = a @ py_strip s @ b \<and> (\<forall>c \<in> set a. py_isspace c) \<and> (\<forall>c \<in> set b. py_isspace c))
          \<and> (py_strip s = [] \<or> (\<not> py_isspace (hd (py_strip s)) \<and> \<not> py_isspace (last (py_strip s))))"
    using py_strip_decomp py_strip_ends by blast
qed

theorem doParseSrcFolder_last_wins_witness:
  "doParseSrcFolder two_files_env ''src'' ''.*''
     = Inr [(''Foo.t1'', ''src/sub/b.cpp''), (''Foo.t2'', ''src/a.cpp'')]
   \<and> src_entries two_files_env (matching_paths two_files_env ''src'' (\<lambda>n. True))
     = [(''Foo.t1'', ''src/a.cpp''), (''Foo.t2'', ''src/a.cpp''), (''Foo.t1'', ''src/sub/b.cpp'')]
   \<and> map_of [(''Foo.t1'', ''src/sub/b.cpp''), (''Foo.t2'', ''src/a.cpp'')] ''Foo.t1''
     = Some (snd (last [(''Foo.t1'', ''src/a.cpp''), (''Foo.t1'', ''src/sub/b.cpp'')]))
   \<and> map_of [(''Foo.t1'', ''src/sub/b.cpp''), (''Foo.t2'', ''src/a.cpp'')] ''Foo.t2'' = Some ''src/a.cpp''"
proof -
  have h1: "re_compile two_files_env ''.*'' = Inr (\<lambda>n. True)"
    by (simp add: two_files_env_def)
  have h2: "doParseSrcFolder two_files_env ''src'' ''.*''
      = Inr [(''Foo.t1'', ''src/sub/b.cpp''), (''Foo.t2'', ''src/a.cpp'')]"
    by code_simp
  have es: "src_entries two_files_env (matching_paths two_files_env ''src'' (\<lambda>n. True))
     = [(''Foo.t1'', ''src/a.cpp''), (''Foo.t2'', ''src/a.cpp''), (''Foo.t1'', ''src/sub/b.cpp'')]"
    by code_simp
  have look: "map_of [(''Foo.t1'', ''src/sub/b.cpp''), (''Foo.t2'', ''src/a.cpp'')] ''Foo.t1''
     = (case filter (\<lambda>e. fst e = ''Foo.t1'')
               (src_entries two_files_env (matching_paths two_files_env ''src'' (\<lambda>n. True))) of
          [] \<Rightarrow> None
        | e # r \<Rightarrow> Some (snd (last (e # r))))"
    using doParseSrcFolder_last_wins [OF h1 h2, THEN conjunct2, THEN conjunct2, THEN conjunct1]
    by (rule spec)
  have one: "(\<exists>e \<in> set (src_entries two_files_env (matching_paths two_files_env ''src'' (\<lambda>n. True))).
          fst e = ''Foo.t2'')
      \<and> (\<forall>e \<in> set (src_entries two_files_env (matching_paths two_files_env ''src'' (\<lambda>n. True))).
          fst e = ''Foo.t2'' \<longrightarrow> snd e = ''src/a.cpp'')
      \<longrightarrow> map_of [(''Foo.t1'', ''src/sub/b.cpp''), (''Foo.t2'', ''src/a.cpp'')] ''Foo.t2'' = Some ''src/a.cpp''"
    using doParseSrcFolder_last_wins [OF h1 h2, THEN conjunct2, THEN conjunct2, THEN conjunct2, THEN conjunct1]
    by blast
  from h2 es look one show ?thesis
    by simp
qed

subsection \<open>Errors\<close>

text \<open>
  C2 (a malformed report beside a valid one: the run completes and the output holds the
  valid report's data): the code on such a directory. With report type \<^verbatim>\<open>junit\<close> the
  run prints the diagnostic for the malformed file and then ends with an uncaught
  AttributeError at \<^verbatim>\<open>executionDict.iteritems()\<close>, before the output file is opened. With
  report type \<^verbatim>\<open>gtest\<close>, whose loop reads \<^verbatim>\<open>iter(executionDict.items())\<close>, the run on the
  same directory completes with the valid report's data.
\<close>

theorem junit_run_raises_AttributeError:
  "main (scenario_env junit_good_report) junit_args
     = \<lparr>status = Raised AttributeError,
        stdout = [CantParse ''reports/bad.xml'' XMLSyntaxError],
        output_file = Untouched\<rparr>
   \<and> main (scenario_env gtest_good_report) gtest_args
     = \<lparr>status = Exited 0,
        stdout = [CantParse ''reports/bad.xml'' XMLSyntaxError],
        output_file = Written
          (Element ''testExecutions'' [(''version'', ''1'')] None
            [Element ''file'' [(''path'', ''src/foo_test.cpp'')] None
              [Element ''testCase'' [(''name'', ''Foo.t1''), (''duration'', ''2'')] None []]])\<rparr>"
  by code_simp

text \<open>
  C3 (a report file whose parsing raises contributes nothing): the code on a report whose
  second test case has no \<^verbatim>\<open>time\<close> attribute. The conversion raises TypeError, the
  diagnostic is printed, and the dictionary returned still holds the first test case; in
  a \<^verbatim>\<open>gtest\<close> run that test case reaches the output document.
\<close>

theorem doParse_keeps_partial_results:
  "JUnit_doParse (scenario_env junit_failing_report) ''reports/good.xml''
     = ([(Some ''foo.cpp'',
          \<lparr>file_path = Some ''foo.cpp'',
           test_cases = [\<lparr>name = ''Foo.t1'', duration = ''125'', msg = None\<rparr>]\<rparr>)],
        [CantParse ''reports/good.xml'' TypeError])
   \<and> main (scenario_env gtest_failing_report) gtest_args
     = \<lparr>status = Exited 0,
        stdout = [CantParse ''reports/bad.xml'' XMLSyntaxError, CantParse ''reports/good.xml'' TypeError],
        output_file = Written
          (Element ''testExecutions'' [(''version'', ''1'')] None
            [Element ''file'' [(''path'', ''src/foo_test.cpp'')] None
              [Element ''testCase'' [(''name'', ''Foo.t1''), (''duration'', ''2'')] None []]])\<rparr>"
  by code_simp

end
